theory Spec2Isabelle
  imports Main "HOL-Library.Multiset" "HOL-Library.Word" "HOL-Library.List_Lexorder"
    "HOL-Library.Char_ord" "HOL-Library.Product_Lexorder"
begin

section \<open>Go values used by the handlers\<close>

text \<open>
  A Go slice is either \<open>nil\<close> or a sequence of elements. The distinction is visible to
  the callers of the handlers: \<open>encoding/json\<close> renders a nil slice as \<open>null\<close> and an
  empty non-nil slice as \<open>[]\<close>. \<open>var xs []T\<close> declares a nil slice, \<open>make([]T, 0, n)\<close>
  an empty non-nil one, and \<open>append\<close> on either gives a non-nil slice.
\<close>

datatype 'a slice = nil_slice | slice_of "'a list"

fun elems :: "'a slice \<Rightarrow> 'a list" where
  "elems nil_slice = []"
| "elems (slice_of xs) = xs"

fun append_slice :: "'a slice \<Rightarrow> 'a \<Rightarrow> 'a slice" where
  "append_slice nil_slice x = slice_of [x]"
| "append_slice (slice_of xs) x = slice_of (xs @ [x])"

definition make_slice :: "'a slice" where
  "make_slice = slice_of []"

text \<open>
  The value tree \<open>encoding/json\<close> produces for the values the handlers pass to
  \<open>c.JSON\<close>: an object keeps its keys in struct field order, and a string is the
  sequence of bytes of its UTF-8 encoding.
\<close>

datatype json =
    JNull
  | JNumber int
  | JString string
  | JArray "json list"
  | JObject "(string \<times> json) list"

fun json_slice :: "('a \<Rightarrow> json) \<Rightarrow> 'a slice \<Rightarrow> json" where
  "json_slice enc nil_slice = JNull"
| "json_slice enc (slice_of xs) = JArray (map enc xs)"

record response =
  status :: nat
  body :: json

definition StatusOK :: nat where
  "StatusOK = 200"

definition StatusInternalServerError :: nat where
  "StatusInternalServerError = 500"

section \<open>The RBAC objects of \<open>k8s.io/api/rbac/v1\<close>\<close>

text \<open>
  The handlers read these types of the Kubernetes API package, which is a dependency of
  the repository. Each record carries the fields of the Go struct that identify the
  object and that the handlers read; \<open>ObjectMeta\<close> is the embedded metadata struct, so
  that Go's \<open>cr.Name\<close> is \<open>Name (ObjectMeta cr)\<close>. The constant \<open>GroupKind\<close> is the
  string the package declares under that name.
\<close>

record ObjectMeta =
  Name :: string
  Namespace :: string

record Subject =
  Kind :: string
  APIGroup :: string
  Name :: string
  Namespace :: string

record RoleRef =
  APIGroup :: string
  Kind :: string
  Name :: string

record PolicyRule =
  Verbs :: "string list"
  APIGroups :: "string list"
  Resources :: "string list"
  ResourceNames :: "string list"
  NonResourceURLs :: "string list"

record RoleBinding =
  ObjectMeta :: ObjectMeta
  Subjects :: "Subject list"
  RoleRef :: RoleRef

record ClusterRoleBinding =
  ObjectMeta :: ObjectMeta
  Subjects :: "Subject list"
  RoleRef :: RoleRef

record ClusterRole =
  ObjectMeta :: ObjectMeta
  Rules :: "PolicyRule list"

definition GroupKind :: string where
  "GroupKind = ''Group''"

section \<open>Group details (\<open>pkg/handlers/rbac/group_details.go\<close>)\<close>

record GroupDetailsResponse =
  GroupName :: string
  RoleBindings :: "RoleBinding slice"
  ClusterRoleBindings :: "ClusterRoleBinding slice"
  ClusterRoles :: "ClusterRole slice"

text \<open>
  The inner loop of the first two loops of \<open>extractGroupDetails\<close>: it walks the subjects
  of one binding \<open>b\<close> and appends \<open>b\<close> to the accumulator at every subject whose kind is
  \<open>GroupKind\<close> and whose name is the group name. There is no \<open>break\<close>.
\<close>

fun subjects_loop :: "string \<Rightarrow> 'b \<Rightarrow> Subject list \<Rightarrow> 'b slice \<Rightarrow> 'b slice" where
  "subjects_loop groupName b [] acc = acc"
| "subjects_loop groupName b (subject # rest) acc =
     subjects_loop groupName b rest
       (if Subject.Kind subject = GroupKind \<and> Subject.Name subject = groupName
        then append_slice acc b else acc)"

fun roleBindings_loop ::
  "string \<Rightarrow> RoleBinding list \<Rightarrow> RoleBinding slice \<Rightarrow> RoleBinding slice" where
  "roleBindings_loop groupName [] acc = acc"
| "roleBindings_loop groupName (rb # rest) acc =
     roleBindings_loop groupName rest
       (subjects_loop groupName rb (RoleBinding.Subjects rb) acc)"

fun clusterRoleBindings_loop ::
  "string \<Rightarrow> ClusterRoleBinding list \<Rightarrow> ClusterRoleBinding slice \<Rightarrow> ClusterRoleBinding slice" where
  "clusterRoleBindings_loop groupName [] acc = acc"
| "clusterRoleBindings_loop groupName (crb # rest) acc =
     clusterRoleBindings_loop groupName rest
       (subjects_loop groupName crb (ClusterRoleBinding.Subjects crb) acc)"

text \<open>
  The third loop: for every collected ClusterRoleBinding, every ClusterRole of the
  listing whose name is the binding's \<open>RoleRef.Name\<close> is appended.
\<close>

fun clusterRoles_inner ::
  "ClusterRoleBinding \<Rightarrow> ClusterRole list \<Rightarrow> ClusterRole slice \<Rightarrow> ClusterRole slice" where
  "clusterRoles_inner crb [] acc = acc"
| "clusterRoles_inner crb (cr # rest) acc =
     clusterRoles_inner crb rest
       (if ObjectMeta.Name (ClusterRole.ObjectMeta cr) = RoleRef.Name (ClusterRoleBinding.RoleRef crb)
        then append_slice acc cr else acc)"

fun clusterRoles_loop ::
  "ClusterRoleBinding list \<Rightarrow> ClusterRole list \<Rightarrow> ClusterRole slice \<Rightarrow> ClusterRole slice" where
  "clusterRoles_loop [] clusterRoles acc = acc"
| "clusterRoles_loop (crb # rest) clusterRoles acc =
     clusterRoles_loop rest clusterRoles (clusterRoles_inner crb clusterRoles acc)"

definition extractGroupDetails ::
  "string \<Rightarrow> RoleBinding list \<Rightarrow> ClusterRoleBinding list \<Rightarrow> ClusterRole list
     \<Rightarrow> GroupDetailsResponse" where
  "extractGroupDetails groupName roleBindings clusterRoleBindings clusterRoles =
     (let groupRoleBindings = roleBindings_loop groupName roleBindings nil_slice;
          groupClusterRoleBindings =
            clusterRoleBindings_loop groupName clusterRoleBindings nil_slice;
          groupClusterRoles =
            clusterRoles_loop (elems groupClusterRoleBindings) clusterRoles nil_slice
      in \<lparr>GroupName = groupName,
          RoleBindings = groupRoleBindings,
          ClusterRoleBindings = groupClusterRoleBindings,
          ClusterRoles = groupClusterRoles\<rparr>)"

section \<open>Referenced groups (\<open>extractGroupsFromBindings\<close>)\<close>

text \<open>
  \<open>groupSet\<close> is a \<open>map[string]struct{}\<close>: a set of strings. The two loops insert the
  name of every subject whose kind is \<open>GroupKind\<close>.
\<close>

fun groupSet_subjects :: "Subject list \<Rightarrow> string set \<Rightarrow> string set" where
  "groupSet_subjects [] groupSet = groupSet"
| "groupSet_subjects (subject # rest) groupSet =
     groupSet_subjects rest
       (if Subject.Kind subject = GroupKind then insert (Subject.Name subject) groupSet
        else groupSet)"

fun groupSet_roleBindings :: "RoleBinding list \<Rightarrow> string set \<Rightarrow> string set" where
  "groupSet_roleBindings [] groupSet = groupSet"
| "groupSet_roleBindings (rb # rest) groupSet =
     groupSet_roleBindings rest (groupSet_subjects (RoleBinding.Subjects rb) groupSet)"

fun groupSet_clusterRoleBindings :: "ClusterRoleBinding list \<Rightarrow> string set \<Rightarrow> string set" where
  "groupSet_clusterRoleBindings [] groupSet = groupSet"
| "groupSet_clusterRoleBindings (crb # rest) groupSet =
     groupSet_clusterRoleBindings rest
       (groupSet_subjects (ClusterRoleBinding.Subjects crb) groupSet)"

text \<open>
  \<open>for group := range groupSet\<close> visits every key of the map once. Go leaves the order
  of the visit unspecified and the runtime varies it from one loop to the next, so the
  visit is a relation: \<open>map_range m ks\<close> holds when \<open>ks\<close> is a possible order of visit.
\<close>

definition map_range :: "'k set \<Rightarrow> 'k list \<Rightarrow> bool" where
  "map_range m ks \<longleftrightarrow> set ks = m \<and> distinct ks"

fun range_append :: "string list \<Rightarrow> string slice \<Rightarrow> string slice" where
  "range_append [] groups = groups"
| "range_append (k # rest) groups = range_append rest (append_slice groups k)"

text \<open>
  \<open>extractGroupsFromBindings_visit ks\<close> is the function when the last loop visits the
  keys in the order \<open>ks\<close>; \<open>extractGroupsFromBindings rbs crbs groups\<close> holds when
  \<open>groups\<close> is a slice the function can return.
\<close>

definition groupSet_of :: "RoleBinding list \<Rightarrow> ClusterRoleBinding list \<Rightarrow> string set" where
  "groupSet_of roleBindings clusterRoleBindings =
     groupSet_clusterRoleBindings clusterRoleBindings
       (groupSet_roleBindings roleBindings {})"

definition extractGroupsFromBindings_visit :: "string list \<Rightarrow> string slice" where
  "extractGroupsFromBindings_visit ks = range_append ks make_slice"

definition extractGroupsFromBindings ::
  "RoleBinding list \<Rightarrow> ClusterRoleBinding list \<Rightarrow> string slice \<Rightarrow> bool" where
  "extractGroupsFromBindings roleBindings clusterRoleBindings groups \<longleftrightarrow>
     (\<exists>ks. map_range (groupSet_of roleBindings clusterRoleBindings) ks
        \<and> groups = extractGroupsFromBindings_visit ks)"

subsection \<open>Predicates of the statements\<close>

text \<open>
  \<open>group_subject g s\<close> is the test both functions apply to a subject: its kind is
  \<open>GroupKind\<close> and its name is \<open>g\<close>. \<open>group_names\<close> is the set of names of the Group
  subjects of a listing of RoleBindings and ClusterRoleBindings.
\<close>

definition group_subject :: "string \<Rightarrow> Subject \<Rightarrow> bool" where
  "group_subject groupName subject \<longleftrightarrow>
     Subject.Kind subject = GroupKind \<and> Subject.Name subject = groupName"

definition group_names :: "RoleBinding list \<Rightarrow> ClusterRoleBinding list \<Rightarrow> string set" where
  "group_names rbs crbs =
     {N. (\<exists>rb \<in> set rbs. \<exists>s \<in> set (RoleBinding.Subjects rb).
            Subject.Kind s = GroupKind \<and> Subject.Name s = N)
       \<or> (\<exists>crb \<in> set crbs. \<exists>s \<in> set (ClusterRoleBinding.Subjects crb).
            Subject.Kind s = GroupKind \<and> Subject.Name s = N)}"

section \<open>The audit-log read handler (\<open>GetAuditLogsHandler\<close>)\<close>

record AuditLog =
  ID :: int
  Action :: string
  ResourceName :: string
  Namespace :: string
  Timestamp :: string
  Hash :: string

text \<open>
  A Go string is any sequence of bytes, and \<open>encoding/json\<close> writes a string by decoding
  it rune by rune (\<open>utf8.DecodeRuneInString\<close>): a byte that does not start a valid UTF-8
  encoding is written as U+FFFD and the decoding resumes at the next byte. (Escapes such
  as those of \<open><\<close> or of control characters change the text of the document, not the
  string it denotes.) \<open>rune_width s\<close> is the number of bytes of the encoding at the head
  of \<open>s\<close>, and 0 when the head byte does not start one; the ranges are those of the
  tables of \<open>unicode/utf8\<close>.
\<close>

definition byte :: "char \<Rightarrow> nat" where
  "byte c = of_char c"

definition continuation :: "char \<Rightarrow> bool" where
  "continuation c \<longleftrightarrow> 0x80 \<le> byte c \<and> byte c \<le> 0xBF"

definition second_accepted :: "nat \<Rightarrow> char \<Rightarrow> bool" where
  "second_accepted x c \<longleftrightarrow>
     (if x = 0xE0 then 0xA0 \<le> byte c \<and> byte c \<le> 0xBF
      else if x = 0xED then 0x80 \<le> byte c \<and> byte c \<le> 0x9F
      else if x = 0xF0 then 0x90 \<le> byte c \<and> byte c \<le> 0xBF
      else if x = 0xF4 then 0x80 \<le> byte c \<and> byte c \<le> 0x8F
      else 0x80 \<le> byte c \<and> byte c \<le> 0xBF)"

definition rune_width :: "string \<Rightarrow> nat" where
  "rune_width s =
     (case s of
        [] \<Rightarrow> 0
      | b0 # rest \<Rightarrow>
          if byte b0 < 0x80 then 1
          else if 0xC2 \<le> byte b0 \<and> byte b0 \<le> 0xDF then
            (case rest of
               b1 # _ \<Rightarrow> if second_accepted (byte b0) b1 then 2 else 0
             | _ \<Rightarrow> 0)
          else if 0xE0 \<le> byte b0 \<and> byte b0 \<le> 0xEF then
            (case rest of
               b1 # b2 # _ \<Rightarrow>
                 if second_accepted (byte b0) b1 \<and> continuation b2 then 3 else 0
             | _ \<Rightarrow> 0)
          else if 0xF0 \<le> byte b0 \<and> byte b0 \<le> 0xF4 then
            (case rest of
               b1 # b2 # b3 # _ \<Rightarrow>
                 if second_accepted (byte b0) b1 \<and> continuation b2 \<and> continuation b3
                 then 4 else 0
             | _ \<Rightarrow> 0)
          else 0)"

definition replacement_character :: string where
  "replacement_character = [CHR 0xEF, CHR 0xBF, CHR 0xBD]"

fun json_string :: "string \<Rightarrow> string" where
  "json_string [] = []"
| "json_string (b0 # rest) =
     (if rune_width (b0 # rest) = 0 then replacement_character @ json_string rest
      else take (rune_width (b0 # rest)) (b0 # rest)
           @ json_string (drop (rune_width (b0 # rest) - 1) rest))"

declare json_string.simps [simp del]

text \<open>The JSON object of an \<open>AuditLog\<close>, with the keys of its struct tags.\<close>

definition AuditLog_json :: "AuditLog \<Rightarrow> json" where
  "AuditLog_json log =
     JObject [(''id'', JNumber (ID log)),
              (''action'', JString (json_string (Action log))),
              (''resource_name'', JString (json_string (ResourceName log))),
              (''namespace'', JString (json_string (AuditLog.Namespace log))),
              (''timestamp'', JString (json_string (Timestamp log))),
              (''hash'', JString (json_string (Hash log)))]"

text \<open>
  The database is a collaborator of the handler (\<open>rbac/pkg/db\<close> and the SQL engine
  behind it), so it is a parameter: \<open>db\<close> maps the text of a query to an error message
  or to the rows the cursor yields, each of which \<open>rows.Scan\<close> either reads into an
  \<open>AuditLog\<close> or rejects with an error.
\<close>

datatype 'a scanned = Scanned 'a | ScanError string

type_synonym database = "string \<Rightarrow> string + AuditLog scanned list"

definition audit_logs_query :: string where
  "audit_logs_query =
     ''SELECT id, action, resource_name, namespace, timestamp, hash FROM audit_logs ORDER BY timestamp DESC''"

definition error_json :: "string \<Rightarrow> json" where
  "error_json msg = JObject [(''error'', JString (json_string msg))]"

text \<open>
  The loop over \<open>rows.Next()\<close>: a row that does not scan ends the handler with status
  500; at the end of the rows the handler answers 200 with the slice \<open>logs\<close>.
\<close>

fun scan_rows :: "AuditLog scanned list \<Rightarrow> AuditLog slice \<Rightarrow> response" where
  "scan_rows [] logs = \<lparr>status = StatusOK, body = json_slice AuditLog_json logs\<rparr>"
| "scan_rows (ScanError err # rest) logs =
     \<lparr>status = StatusInternalServerError,
      body = error_json (''Failed to scan audit log: '' @ err)\<rparr>"
| "scan_rows (Scanned log # rest) logs = scan_rows rest (append_slice logs log)"

definition GetAuditLogsHandler :: "database \<Rightarrow> response" where
  "GetAuditLogsHandler db =
     (case db audit_logs_query of
        Inl err \<Rightarrow>
          \<lparr>status = StatusInternalServerError,
           body = error_json (''Failed to retrieve audit logs: '' @ err)\<rparr>
      | Inr rows \<Rightarrow> scan_rows rows nil_slice)"

section \<open>The database behind the read handler\<close>

text \<open>
  Modelled from the spec: the audit storage. The package \<open>rbac/pkg/db\<close> and the SQL
  engine that runs the handler's statement are not among the sources; section 6 of the
  specification has the storage hold the audit records and the read endpoint list them
  by timestamp, newest first. The model is a store of tables and the evaluation of a
  statement of the form \<open>SELECT columns FROM table [ORDER BY column [ASC|DESC]]\<close>, the
  form of the handler's statement, so that what the handler receives depends on the text
  it sends. A column value is an integer, a text or NULL.
\<close>

datatype sql_value = SqlNull | SqlInt int | SqlText string

record sql_table =
  table_name :: string
  table_columns :: "string list"
  table_rows :: "sql_value list list"

datatype sql_failure =
    SyntaxError
  | NoSuchTable string
  | NoSuchColumn string
  | WrongArity nat
  | Unconvertible nat sql_value

text \<open>
  Modelled from the spec: the words of a statement, separated by blanks and commas.
  \<open>tokens_from w s\<close> carries the word being read, reversed, in \<open>w\<close>.
\<close>

fun tokens_from :: "string \<Rightarrow> string \<Rightarrow> string list" where
  "tokens_from w [] = (if w = [] then [] else [rev w])"
| "tokens_from w (c # cs) =
     (if c = CHR '' '' \<or> c = CHR '',''
      then (if w = [] then tokens_from [] cs else rev w # tokens_from [] cs)
      else tokens_from (c # w) cs)"

definition tokens :: "string \<Rightarrow> string list" where
  "tokens s = tokens_from [] s"

datatype direction = Asc | Desc

record select_stmt =
  sel_columns :: "string list"
  sel_table :: string
  sel_order :: "(string \<times> direction) option"

text \<open>
  Modelled from the spec: the statement grammar. \<open>parse_order\<close> reads what follows the
  table name: nothing, or \<open>ORDER BY column\<close> with an optional direction, ascending when
  none is given. \<open>None\<close> is a syntax error.
\<close>

definition parse_order :: "string list \<Rightarrow> (string \<times> direction) option option" where
  "parse_order ts =
     (case ts of
        [] \<Rightarrow> Some None
      | [k1, k2, c] \<Rightarrow>
          if k1 = ''ORDER'' \<and> k2 = ''BY'' then Some (Some (c, Asc)) else None
      | [k1, k2, c, d] \<Rightarrow>
          if k1 = ''ORDER'' \<and> k2 = ''BY'' \<and> d = ''ASC'' then Some (Some (c, Asc))
          else if k1 = ''ORDER'' \<and> k2 = ''BY'' \<and> d = ''DESC'' then Some (Some (c, Desc))
          else None
      | _ \<Rightarrow> None)"

definition parse_select :: "string list \<Rightarrow> select_stmt option" where
  "parse_select ts =
     (case ts of
        [] \<Rightarrow> None
      | k # rest \<Rightarrow>
          if k \<noteq> ''SELECT'' \<or> takeWhile (\<lambda>t. t \<noteq> ''FROM'') rest = [] then None
          else (case dropWhile (\<lambda>t. t \<noteq> ''FROM'') rest of
                  _ # tbl # tail \<Rightarrow>
                    (case parse_order tail of
                       None \<Rightarrow> None
                     | Some ord \<Rightarrow>
                         Some \<lparr>sel_columns = takeWhile (\<lambda>t. t \<noteq> ''FROM'') rest,
                               sel_table = tbl, sel_order = ord\<rparr>)
                | _ \<Rightarrow> None))"

text \<open>
  Modelled from the spec: the evaluation of a statement. A column is found by its name
  in the table's column list; \<open>cell row i\<close> is the value of a row in column \<open>i\<close>, NULL
  past the end of the row.
\<close>

fun index_of :: "string \<Rightarrow> string list \<Rightarrow> nat option" where
  "index_of c [] = None"
| "index_of c (x # xs) = (if x = c then Some 0 else map_option Suc (index_of c xs))"

definition cell :: "sql_value list \<Rightarrow> nat \<Rightarrow> sql_value" where
  "cell row i = (if i < length row then row ! i else SqlNull)"

fun column_indices :: "string list \<Rightarrow> string list \<Rightarrow> sql_failure + nat list" where
  "column_indices columns [] = Inr []"
| "column_indices columns (c # cs) =
     (case index_of c columns of
        None \<Rightarrow> Inl (NoSuchColumn c)
      | Some i \<Rightarrow>
          (case column_indices columns cs of
             Inl f \<Rightarrow> Inl f
           | Inr is \<Rightarrow> Inr (i # is)))"

text \<open>
  Modelled from the spec: the order of column values. NULL comes first, then the
  integers by value, then the texts byte by byte; \<open>ORDER BY\<close> sorts by the key of the
  named column, and \<open>DESC\<close> reverses the ascending order.
\<close>

fun sql_key :: "sql_value \<Rightarrow> nat \<times> int \<times> string" where
  "sql_key SqlNull = (0, 0, [])"
| "sql_key (SqlInt i) = (1, i, [])"
| "sql_key (SqlText s) = (2, 0, s)"

definition order_rows :: "nat \<Rightarrow> direction \<Rightarrow> sql_value list list \<Rightarrow> sql_value list list" where
  "order_rows i d rows =
     (case d of
        Asc \<Rightarrow> sort_key (\<lambda>row. sql_key (cell row i)) rows
      | Desc \<Rightarrow> rev (sort_key (\<lambda>row. sql_key (cell row i)) rows))"

definition execute :: "sql_table list \<Rightarrow> string \<Rightarrow> sql_failure + sql_value list list" where
  "execute store q =
     (case parse_select (tokens q) of
        None \<Rightarrow> Inl SyntaxError
      | Some st \<Rightarrow>
          (case find (\<lambda>t. table_name t = sel_table st) store of
             None \<Rightarrow> Inl (NoSuchTable (sel_table st))
           | Some t \<Rightarrow>
               (case column_indices (table_columns t) (sel_columns st) of
                  Inl f \<Rightarrow> Inl f
                | Inr is \<Rightarrow>
                    (case sel_order st of
                       None \<Rightarrow> Inr (map (\<lambda>row. map (cell row) is) (table_rows t))
                     | Some (c, d) \<Rightarrow>
                         (case index_of c (table_columns t) of
                            None \<Rightarrow> Inl (NoSuchColumn c)
                          | Some i \<Rightarrow>
                              Inr (map (\<lambda>row. map (cell row) is)
                                     (order_rows i d (table_rows t))))))))"

text \<open>
  \<open>rows.Scan(&log.ID, &log.Action, &log.ResourceName, &log.Namespace, &log.Timestamp,
  &log.Hash)\<close>: the values of a result row are converted, by position, to the types of
  the six destinations. \<open>database/sql\<close> converts through the decimal text between
  integers and strings and rejects NULL for both destination types; an integer
  destination takes what \<open>strconv.ParseInt\<close> reads in base 10 within 64 bits.
\<close>

definition int64 :: "int \<Rightarrow> bool" where
  "int64 i \<longleftrightarrow> - (2 ^ 63) \<le> i \<and> i < 2 ^ 63"

fun digits :: "nat \<Rightarrow> string" where
  "digits n =
     (if n < 10 then [char_of (48 + n)]
      else digits (n div 10) @ [char_of (48 + n mod 10)])"

declare digits.simps [simp del]

definition format_int :: "int \<Rightarrow> string" where
  "format_int i = (if i < 0 then CHR ''-'' # digits (nat (- i)) else digits (nat i))"

definition is_digit :: "char \<Rightarrow> bool" where
  "is_digit c \<longleftrightarrow> 48 \<le> byte c \<and> byte c \<le> 57"

definition parse_nat :: "string \<Rightarrow> nat option" where
  "parse_nat s =
     (if s = [] \<or> \<not> list_all is_digit s then None
      else Some (foldl (\<lambda>n c. 10 * n + (byte c - 48)) 0 s))"

definition parse_int :: "string \<Rightarrow> int option" where
  "parse_int s =
     (case s of
        [] \<Rightarrow> None
      | c # rest \<Rightarrow>
          if c = CHR ''-'' then map_option (\<lambda>n. - int n) (parse_nat rest)
          else if c = CHR ''+'' then map_option int (parse_nat rest)
          else map_option int (parse_nat s))"

definition scan_int :: "nat \<Rightarrow> sql_value \<Rightarrow> sql_failure + int" where
  "scan_int col v =
     (case v of
        SqlNull \<Rightarrow> Inl (Unconvertible col v)
      | SqlInt i \<Rightarrow> if int64 i then Inr i else Inl (Unconvertible col v)
      | SqlText s \<Rightarrow>
          (case parse_int s of
             None \<Rightarrow> Inl (Unconvertible col v)
           | Some i \<Rightarrow> if int64 i then Inr i else Inl (Unconvertible col v)))"

definition scan_string :: "nat \<Rightarrow> sql_value \<Rightarrow> sql_failure + string" where
  "scan_string col v =
     (case v of
        SqlNull \<Rightarrow> Inl (Unconvertible col v)
      | SqlInt i \<Rightarrow> Inr (format_int i)
      | SqlText s \<Rightarrow> Inr s)"

definition Scan_AuditLog :: "sql_value list \<Rightarrow> sql_failure + AuditLog" where
  "Scan_AuditLog row =
     (case row of
        [v0, v1, v2, v3, v4, v5] \<Rightarrow>
          (case scan_int 0 v0 of Inl f \<Rightarrow> Inl f | Inr i \<Rightarrow>
          (case scan_string 1 v1 of Inl f \<Rightarrow> Inl f | Inr a \<Rightarrow>
          (case scan_string 2 v2 of Inl f \<Rightarrow> Inl f | Inr n \<Rightarrow>
          (case scan_string 3 v3 of Inl f \<Rightarrow> Inl f | Inr ns \<Rightarrow>
          (case scan_string 4 v4 of Inl f \<Rightarrow> Inl f | Inr ts \<Rightarrow>
          (case scan_string 5 v5 of Inl f \<Rightarrow> Inl f | Inr h \<Rightarrow>
             Inr \<lparr>ID = i, Action = a, ResourceName = n, AuditLog.Namespace = ns,
                  Timestamp = ts, Hash = h\<rparr>))))))
      | _ \<Rightarrow> Inl (WrongArity (length row)))"

text \<open>
  \<open>db.DB.Query\<close> over a store: the statement is evaluated and every result row is
  scanned. The text of an error is the engine's and the library's, and is the parameter
  \<open>message\<close>.
\<close>

definition sql_Query :: "(sql_failure \<Rightarrow> string) \<Rightarrow> sql_table list \<Rightarrow> database" where
  "sql_Query message store q =
     (case execute store q of
        Inl f \<Rightarrow> Inl (message f)
      | Inr rows \<Rightarrow>
          Inr (map (\<lambda>row. case Scan_AuditLog row of
                             Inl f \<Rightarrow> ScanError (message f)
                           | Inr log \<Rightarrow> Scanned log) rows))"

text \<open>
  The audit record a stored row holds, read off its named columns: an integer \<open>id\<close>
  within 64 bits and texts in the five other columns. A row with another content (a
  NULL namespace, say) holds none.
\<close>

definition column :: "string list \<Rightarrow> sql_value list \<Rightarrow> string \<Rightarrow> sql_value" where
  "column columns row c = (case index_of c columns of None \<Rightarrow> SqlNull | Some i \<Rightarrow> cell row i)"

definition text_of :: "sql_value \<Rightarrow> string option" where
  "text_of v = (case v of SqlText s \<Rightarrow> Some s | _ \<Rightarrow> None)"

definition id_of :: "sql_value \<Rightarrow> int option" where
  "id_of v = (case v of SqlInt i \<Rightarrow> if int64 i then Some i else None | _ \<Rightarrow> None)"

definition stored_AuditLog :: "string list \<Rightarrow> sql_value list \<Rightarrow> AuditLog option" where
  "stored_AuditLog columns row =
     (case id_of (column columns row ''id'') of None \<Rightarrow> None | Some i \<Rightarrow>
     (case text_of (column columns row ''action'') of None \<Rightarrow> None | Some a \<Rightarrow>
     (case text_of (column columns row ''resource_name'') of None \<Rightarrow> None | Some n \<Rightarrow>
     (case text_of (column columns row ''namespace'') of None \<Rightarrow> None | Some ns \<Rightarrow>
     (case text_of (column columns row ''timestamp'') of None \<Rightarrow> None | Some ts \<Rightarrow>
     (case text_of (column columns row ''hash'') of None \<Rightarrow> None | Some h \<Rightarrow>
        Some \<lparr>ID = i, Action = a, ResourceName = n, AuditLog.Namespace = ns,
              Timestamp = ts, Hash = h\<rparr>))))))"

definition audit_logs_columns :: "string list" where
  "audit_logs_columns = [''id'', ''action'', ''resource_name'', ''namespace'', ''timestamp'', ''hash'']"

section \<open>The audit chain of the specification\<close>

text \<open>
  Modelled from the spec: \<open>Append\<close> and \<open>VerifyChain\<close>, the functions that write and
  check the hash chain, are not among the sources (only the \<open>AuditLog\<close> row type and
  the read handler are), so this section follows sections 3, 4.2 and 9 of the
  specification. The digest algorithm and the canonical encoding are left to the
  implementer there and are parameters here.
\<close>

datatype SubjectKind = User | Group | ServiceAccount

record spec_Subject =
  kind :: SubjectKind
  name :: string
  namespace :: string

datatype error =
    NotFound
  | UpstreamUnavailable
  | InvalidReference
  | ChainCorruption
  | ConcurrentAppendConflict

type_synonym digest = string

text \<open>
  Modelled from the spec: the \<open>AuditRecord\<close> of section 3, of which the sources have
  the columns the read handler selects. As section 9 assumes, and as the \<open>audit_logs\<close>
  table of the source has it, a row stores its own hash only: the previous hash of row \<open>n\<close> is the hash of
  row \<open>n - 1\<close>. An \<open>AuditRecord\<close>, which \<open>Append\<close> returns, is the row together with
  the previous hash it was built from. \<open>sequence\<close> is a \<open>uint64\<close>.
\<close>

record StoredRecord =
  sequence :: "64 word"
  action :: string
  resourceKind :: string
  resourceName :: string
  namespace :: "string option"
  actor :: spec_Subject
  timestamp :: nat
  hash :: digest

record AuditRecord = StoredRecord +
  previousHash :: digest

text \<open>
  Modelled from the spec: the fields the digest covers, in the canonical order of
  section 4.2: sequence, action,
  resourceKind, resourceName, namespace, actor, timestamp.
\<close>

type_synonym audit_fields =
  "64 word \<times> string \<times> string \<times> string \<times> string option \<times> spec_Subject \<times> nat"

definition fields_of :: "'m StoredRecord_scheme \<Rightarrow> audit_fields" where
  "fields_of r =
     (sequence r, action r, resourceKind r, resourceName r, StoredRecord.namespace r,
      actor r, timestamp r)"

record digest_rule =
  canonicalize :: "audit_fields \<Rightarrow> string"
  Digest :: "string \<Rightarrow> digest"
  digest_size :: nat

text \<open>
  Modelled from the spec: the fixed genesis digest of section 3, \<open>digest_size\<close> bytes
  that are all zero.
\<close>

definition genesis :: "digest_rule \<Rightarrow> digest" where
  "genesis R = replicate (digest_size R) (CHR 0x00)"

text \<open>
  Modelled from the spec: the digest rule of section 4.2,
  \<open>hash = Digest(canonicalize(record fields) || previousHash)\<close>.
\<close>

definition record_hash :: "digest_rule \<Rightarrow> audit_fields \<Rightarrow> digest \<Rightarrow> digest" where
  "record_hash R f prev = Digest R (canonicalize R f @ prev)"

text \<open>
  Modelled from the spec: the chain tail that \<open>Append\<close> reads (section 4.2). The chain
  is the list of persisted rows in the order of their appends. Its tail is
  the last sequence number and its hash, or sequence 0 and the genesis digest when the
  chain is empty.
\<close>

type_synonym chain = "StoredRecord list"

definition chain_tail :: "digest_rule \<Rightarrow> chain \<Rightarrow> 64 word \<times> digest" where
  "chain_tail R c = (if c = [] then (0, genesis R) else (sequence (last c), hash (last c)))"

text \<open>
  Modelled from the spec: the storage primitive of section 6, "append if tail matches expected previous record":
  the loser of a race finds another tail and fails with \<open>ConcurrentAppendConflict\<close>.
\<close>

definition append_if_tail ::
  "digest_rule \<Rightarrow> 64 word \<times> digest \<Rightarrow> StoredRecord \<Rightarrow> chain \<Rightarrow> error + chain" where
  "append_if_tail R expected row c =
     (if chain_tail R c = expected then Inr (c @ [row]) else Inl ConcurrentAppendConflict)"

text \<open>
  Modelled from the spec: \<open>Append\<close> (section 4.2), which is not among the sources. It
  reads the tail, builds the record with the next sequence number and the tail's hash as
  previous hash, computes the hash and persists the row.
  An event is what the caller of \<open>Append\<close> supplies (action, resourceKind, resourceName,
  namespace, actor) together with the instant the record is stamped with.
\<close>

record event =
  ev_action :: string
  ev_resourceKind :: string
  ev_resourceName :: string
  ev_namespace :: "string option"
  ev_actor :: spec_Subject
  ev_timestamp :: nat

definition Append :: "digest_rule \<Rightarrow> event \<Rightarrow> chain \<Rightarrow> error + (AuditRecord \<times> chain)" where
  "Append R e c =
     (let tail = chain_tail R c;
          seq = fst tail + 1;
          prev = snd tail;
          h = record_hash R
                (seq, ev_action e, ev_resourceKind e, ev_resourceName e, ev_namespace e,
                 ev_actor e, ev_timestamp e) prev;
          row = \<lparr>sequence = seq, action = ev_action e, resourceKind = ev_resourceKind e,
                 resourceName = ev_resourceName e, StoredRecord.namespace = ev_namespace e,
                 actor = ev_actor e, timestamp = ev_timestamp e, hash = h\<rparr>
      in case append_if_tail R tail row c of
           Inl err \<Rightarrow> Inl err
         | Inr c' \<Rightarrow> Inr (StoredRecord.extend row (AuditRecord.fields prev), c'))"

text \<open>
  Modelled from the spec: a sequence of \<open>Append\<close> operations, one after the other,
  stopping at the first failure.
\<close>

fun Appends :: "digest_rule \<Rightarrow> event list \<Rightarrow> chain \<Rightarrow> error + (AuditRecord list \<times> chain)" where
  "Appends R [] c = Inr ([], c)"
| "Appends R (e # es) c =
     (case Append R e c of
        Inl err \<Rightarrow> Inl err
      | Inr (r, c') \<Rightarrow>
          (case Appends R es c' of
             Inl err \<Rightarrow> Inl err
           | Inr (rs, c'') \<Rightarrow> Inr (r # rs, c'')))"







text \<open>
  Modelled from the spec: the row that is persisted for a record, which is the record
  without its previous hash (section 9).
\<close>

definition stored_of :: "AuditRecord \<Rightarrow> StoredRecord" where
  "stored_of r = StoredRecord.truncate r"

text \<open>
  Two auxiliary predicates of the proofs. \<open>linked R s p rs\<close>: the records \<open>rs\<close> continue
  a chain whose tail is sequence \<open>s\<close> and hash \<open>p\<close>. \<open>links_ok R p c\<close>: every row of \<open>c\<close>
  stores the hash recomputed from its fields and the hash before it, \<open>p\<close> being the hash
  before the first row.
\<close>

fun linked :: "digest_rule \<Rightarrow> 64 word \<Rightarrow> digest \<Rightarrow> AuditRecord list \<Rightarrow> bool" where
  "linked R s p [] = True"
| "linked R s p (r # rs) =
     (sequence r = s + 1 \<and> previousHash r = p \<and> hash r = record_hash R (fields_of r) p
      \<and> linked R (s + 1) (record_hash R (fields_of r) p) rs)"





section \<open>The access-graph resolver of the specification\<close>

text \<open>
  Modelled from the spec: \<open>ResolveEffectivePermissions\<close> is not among the sources (the
  sources resolve groups only, in \<open>extractGroupsFromBindings\<close> and
  \<open>extractGroupDetails\<close>), so the data model of section 3 and the algorithm of section
  4.1 are followed here. The records are those of section 3, named \<open>spec_\<close> to keep them
  apart from the Kubernetes structs above.
\<close>

record spec_PolicyRule =
  apiGroups :: "string set"
  resources :: "string set"
  verbs :: "string set"
  resourceNames :: "string set"

datatype RoleRefScope = Namespaced | Cluster

record spec_RoleRef =
  scope :: RoleRefScope
  name :: string

record spec_Role =
  name :: string
  namespace :: string
  rules :: "spec_PolicyRule list"

record spec_ClusterRole =
  name :: string
  rules :: "spec_PolicyRule list"

record spec_RoleBinding =
  name :: string
  namespace :: string
  subjects :: "spec_Subject list"
  roleRef :: spec_RoleRef

record spec_ClusterRoleBinding =
  name :: string
  subjects :: "spec_Subject list"
  roleRef :: spec_RoleRef

record Snapshot =
  roles :: "spec_Role list"
  clusterRoles :: "spec_ClusterRole list"
  roleBindings :: "spec_RoleBinding list"
  clusterRoleBindings :: "spec_ClusterRoleBinding list"

text \<open>
  Modelled from the spec: the \<open>EffectivePermissionSet\<close> of section 3. A permission is
  a pair of a namespace scope and a rule; the scope \<open>*\<close> is
  cluster-wide. A diagnostic names the binding that was skipped.
\<close>

type_synonym permission = "string \<times> spec_PolicyRule"

definition cluster_wide :: string where
  "cluster_wide = ''*''"

datatype diagnostic = MissingReference string | InvalidRoleRef string

text \<open>
  Modelled from the spec: the resolution of one binding's \<open>roleRef\<close> (section 4.1). The
  lookup is the join on the name of which \<open>ResolveGroupDetails\<close> is said to be a
  restriction: every role of the snapshot with the referenced name (and, for a Role, the
  binding's namespace). When there is none the binding is skipped with a diagnostic.
  The rules of a ClusterRole reached from a RoleBinding are scoped to the binding's
  namespace; a ClusterRoleBinding with a namespaced \<open>roleRef\<close> is invalid and skipped.
\<close>

definition resolve_RoleBinding :: "Snapshot \<Rightarrow> spec_RoleBinding \<Rightarrow> diagnostic + permission list" where
  "resolve_RoleBinding snap b =
     (case scope (spec_RoleBinding.roleRef b) of
        Namespaced \<Rightarrow>
          (case filter (\<lambda>r. spec_Role.name r = spec_RoleRef.name (spec_RoleBinding.roleRef b)
                            \<and> spec_Role.namespace r = spec_RoleBinding.namespace b) (roles snap) of
             [] \<Rightarrow> Inl (MissingReference (spec_RoleBinding.name b))
           | rs \<Rightarrow> Inr (map (Pair (spec_RoleBinding.namespace b))
                          (concat (map spec_Role.rules rs))))
      | Cluster \<Rightarrow>
          (case filter (\<lambda>r. spec_ClusterRole.name r =
                              spec_RoleRef.name (spec_RoleBinding.roleRef b)) (clusterRoles snap) of
             [] \<Rightarrow> Inl (MissingReference (spec_RoleBinding.name b))
           | rs \<Rightarrow> Inr (map (Pair (spec_RoleBinding.namespace b))
                          (concat (map spec_ClusterRole.rules rs)))))"

definition resolve_ClusterRoleBinding ::
  "Snapshot \<Rightarrow> spec_ClusterRoleBinding \<Rightarrow> diagnostic + permission list" where
  "resolve_ClusterRoleBinding snap b =
     (case scope (spec_ClusterRoleBinding.roleRef b) of
        Namespaced \<Rightarrow> Inl (InvalidRoleRef (spec_ClusterRoleBinding.name b))
      | Cluster \<Rightarrow>
          (case filter (\<lambda>r. spec_ClusterRole.name r =
                              spec_RoleRef.name (spec_ClusterRoleBinding.roleRef b))
                  (clusterRoles snap) of
             [] \<Rightarrow> Inl (MissingReference (spec_ClusterRoleBinding.name b))
           | rs \<Rightarrow> Inr (map (Pair cluster_wide) (concat (map spec_ClusterRole.rules rs)))))"

text \<open>
  Modelled from the spec: the accumulation of section 4.1. A pair already in the result
  is not added again; a skipped binding adds its diagnostic and resolution goes on.
\<close>

record resolution =
  permissions :: "permission list"
  diagnostics :: "diagnostic list"

fun add_permissions :: "permission list \<Rightarrow> permission list \<Rightarrow> permission list" where
  "add_permissions acc [] = acc"
| "add_permissions acc (p # ps) = add_permissions (if p \<in> set acc then acc else acc @ [p]) ps"

definition accumulate :: "resolution \<Rightarrow> diagnostic + permission list \<Rightarrow> resolution" where
  "accumulate acc res =
     (case res of
        Inl d \<Rightarrow> acc\<lparr>diagnostics := diagnostics acc @ [d]\<rparr>
      | Inr ps \<Rightarrow> acc\<lparr>permissions := add_permissions (permissions acc) ps\<rparr>)"

fun resolve_RoleBindings ::
  "Snapshot \<Rightarrow> spec_Subject \<Rightarrow> spec_RoleBinding list \<Rightarrow> resolution \<Rightarrow> resolution" where
  "resolve_RoleBindings snap subject [] acc = acc"
| "resolve_RoleBindings snap subject (b # bs) acc =
     resolve_RoleBindings snap subject bs
       (if subject \<in> set (spec_RoleBinding.subjects b)
        then accumulate acc (resolve_RoleBinding snap b) else acc)"

fun resolve_ClusterRoleBindings ::
  "Snapshot \<Rightarrow> spec_Subject \<Rightarrow> spec_ClusterRoleBinding list \<Rightarrow> resolution \<Rightarrow> resolution" where
  "resolve_ClusterRoleBindings snap subject [] acc = acc"
| "resolve_ClusterRoleBindings snap subject (b # bs) acc =
     resolve_ClusterRoleBindings snap subject bs
       (if subject \<in> set (spec_ClusterRoleBinding.subjects b)
        then accumulate acc (resolve_ClusterRoleBinding snap b) else acc)"

definition resolve :: "spec_Subject \<Rightarrow> Snapshot \<Rightarrow> resolution" where
  "resolve subject snap =
     resolve_ClusterRoleBindings snap subject (clusterRoleBindings snap)
       (resolve_RoleBindings snap subject (roleBindings snap)
          \<lparr>permissions = [], diagnostics = []\<rparr>)"

definition ResolveEffectivePermissions :: "spec_Subject \<Rightarrow> Snapshot \<Rightarrow> permission list" where
  "ResolveEffectivePermissions subject snap = permissions (resolve subject snap)"

text \<open>
  Modelled from the spec: the set that section 8 compares the result with. These are the
  permissions the bindings of a snapshot grant to a subject, read off section 4.1
  binding by binding: the pairs \<open>(scope, rule)\<close> derived from exactly the bindings whose
  subject list contains the subject.
\<close>

definition RoleBinding_grants :: "Snapshot \<Rightarrow> spec_RoleBinding \<Rightarrow> permission set" where
  "RoleBinding_grants snap b =
     {(sc, rule). sc = spec_RoleBinding.namespace b \<and>
        (case scope (spec_RoleBinding.roleRef b) of
           Namespaced \<Rightarrow>
             (\<exists>r \<in> set (roles snap).
                spec_Role.name r = spec_RoleRef.name (spec_RoleBinding.roleRef b)
                \<and> spec_Role.namespace r = spec_RoleBinding.namespace b
                \<and> rule \<in> set (spec_Role.rules r))
         | Cluster \<Rightarrow>
             (\<exists>r \<in> set (clusterRoles snap).
                spec_ClusterRole.name r = spec_RoleRef.name (spec_RoleBinding.roleRef b)
                \<and> rule \<in> set (spec_ClusterRole.rules r)))}"

definition ClusterRoleBinding_grants ::
  "Snapshot \<Rightarrow> spec_ClusterRoleBinding \<Rightarrow> permission set" where
  "ClusterRoleBinding_grants snap b =
     {(sc, rule). sc = cluster_wide \<and> scope (spec_ClusterRoleBinding.roleRef b) = Cluster \<and>
        (\<exists>r \<in> set (clusterRoles snap).
           spec_ClusterRole.name r = spec_RoleRef.name (spec_ClusterRoleBinding.roleRef b)
           \<and> rule \<in> set (spec_ClusterRole.rules r))}"

definition granted :: "spec_Subject \<Rightarrow> Snapshot \<Rightarrow> permission set" where
  "granted subject snap =
     (\<Union>b \<in> {b \<in> set (roleBindings snap). subject \<in> set (spec_RoleBinding.subjects b)}.
        RoleBinding_grants snap b)
     \<union> (\<Union>b \<in> {b \<in> set (clusterRoleBindings snap).
                  subject \<in> set (spec_ClusterRoleBinding.subjects b)}.
        ClusterRoleBinding_grants snap b)"

text \<open>
  Modelled from the spec: "independent of the order objects appear in the snapshot"
  (section 8). Two snapshots hold the same objects, in whatever order.
\<close>

definition same_objects :: "Snapshot \<Rightarrow> Snapshot \<Rightarrow> bool" where
  "same_objects snap snap' \<longleftrightarrow>
     mset (roles snap) = mset (roles snap')
     \<and> mset (clusterRoles snap) = mset (clusterRoles snap')
     \<and> mset (roleBindings snap) = mset (roleBindings snap')
     \<and> mset (clusterRoleBindings snap) = mset (clusterRoleBindings snap')"

text \<open>
  Modelled from the spec: the pairs one binding contributes to the result, none when it
  is skipped.
\<close>

definition result_set :: "diagnostic + permission list \<Rightarrow> permission set" where
  "result_set res = (case res of Inl d \<Rightarrow> {} | Inr ps \<Rightarrow> set ps)"


section \<open>Example objects\<close>

text \<open>Concrete bindings and roles at which the theorems below are instantiated.\<close>

definition Group_named :: "string \<Rightarrow> Subject" where
  "Group_named n =
     \<lparr>Subject.Kind = ''Group'', Subject.APIGroup = ''rbac.authorization.k8s.io'',
      Subject.Name = n, Subject.Namespace = []\<rparr>"

definition User_named :: "string \<Rightarrow> Subject" where
  "User_named n =
     \<lparr>Subject.Kind = ''User'', Subject.APIGroup = ''rbac.authorization.k8s.io'',
      Subject.Name = n, Subject.Namespace = []\<rparr>"

definition ClusterRole_ref :: "string \<Rightarrow> RoleRef" where
  "ClusterRole_ref n =
     \<lparr>RoleRef.APIGroup = ''rbac.authorization.k8s.io'', RoleRef.Kind = ''ClusterRole'',
      RoleRef.Name = n\<rparr>"

definition rb_dev_twice :: RoleBinding where
  "rb_dev_twice =
     \<lparr>RoleBinding.ObjectMeta = \<lparr>ObjectMeta.Name = ''dev-view'', ObjectMeta.Namespace = ''default''\<rparr>,
      RoleBinding.Subjects = [Group_named ''dev'', User_named ''alice'', Group_named ''dev''],
      RoleBinding.RoleRef = ClusterRole_ref ''viewer''\<rparr>"

definition rb_no_subjects :: RoleBinding where
  "rb_no_subjects =
     \<lparr>RoleBinding.ObjectMeta = \<lparr>ObjectMeta.Name = ''unused'', ObjectMeta.Namespace = ''default''\<rparr>,
      RoleBinding.Subjects = [],
      RoleBinding.RoleRef = ClusterRole_ref ''viewer''\<rparr>"

definition rb_ops_dev :: RoleBinding where
  "rb_ops_dev =
     \<lparr>RoleBinding.ObjectMeta = \<lparr>ObjectMeta.Name = ''ops-dev'', ObjectMeta.Namespace = ''staging''\<rparr>,
      RoleBinding.Subjects = [Group_named ''ops'', Group_named ''dev''],
      RoleBinding.RoleRef = ClusterRole_ref ''viewer''\<rparr>"

definition crb_admins :: ClusterRoleBinding where
  "crb_admins =
     \<lparr>ClusterRoleBinding.ObjectMeta = \<lparr>ObjectMeta.Name = ''admins'', ObjectMeta.Namespace = []\<rparr>,
      ClusterRoleBinding.Subjects = [Group_named ''admins'', User_named ''root''],
      ClusterRoleBinding.RoleRef = ClusterRole_ref ''cluster-admin''\<rparr>"

definition crb_alice :: ClusterRoleBinding where
  "crb_alice =
     \<lparr>ClusterRoleBinding.ObjectMeta = \<lparr>ObjectMeta.Name = ''alice'', ObjectMeta.Namespace = []\<rparr>,
      ClusterRoleBinding.Subjects = [User_named ''alice''],
      ClusterRoleBinding.RoleRef = ClusterRole_ref ''viewer''\<rparr>"

definition cr_cluster_admin :: ClusterRole where
  "cr_cluster_admin =
     \<lparr>ClusterRole.ObjectMeta = \<lparr>ObjectMeta.Name = ''cluster-admin'', ObjectMeta.Namespace = []\<rparr>,
      Rules = [\<lparr>Verbs = [''*''], APIGroups = [''*''], Resources = [''*''],
                ResourceNames = [], NonResourceURLs = []\<rparr>]\<rparr>"

definition cr_viewer :: ClusterRole where
  "cr_viewer =
     \<lparr>ClusterRole.ObjectMeta = \<lparr>ObjectMeta.Name = ''viewer'', ObjectMeta.Namespace = []\<rparr>,
      Rules = [\<lparr>Verbs = [''get'', ''list''], APIGroups = [[]], Resources = [''pods''],
                ResourceNames = [], NonResourceURLs = []\<rparr>]\<rparr>"


definition log_morning :: AuditLog where
  "log_morning =
     \<lparr>ID = 1, Action = ''create'', ResourceName = ''viewer'', AuditLog.Namespace = ''default'',
      Timestamp = ''2024-05-01T09:00:00Z'', Hash = ''9f2c''\<rparr>"

definition log_evening :: AuditLog where
  "log_evening =
     \<lparr>ID = 2, Action = ''delete'', ResourceName = ''viewer'', AuditLog.Namespace = ''default'',
      Timestamp = ''2024-05-02T17:30:00Z'', Hash = ''41ab''\<rparr>"

definition db_no_logs :: database where
  "db_no_logs q = (if q = audit_logs_query then Inr [] else Inl ''no such table'')"


text \<open>
  A digest rule for the examples: a one-byte checksum over a canonical form that joins the
  fields with a separator. It stands for the rule an implementer chooses.
\<close>

definition checksum :: "string \<Rightarrow> digest" where
  "checksum s = [char_of (sum_list (map of_char s) :: nat)]"

definition example_canonicalize :: "audit_fields \<Rightarrow> string" where
  "example_canonicalize f =
     (case f of (seq, a, k, n, ns, subj, t) \<Rightarrow>
        replicate (unat seq) (CHR ''#'') @ ''|'' @ a @ ''|'' @ k @ ''|'' @ n @ ''|''
        @ (case ns of None \<Rightarrow> [] | Some x \<Rightarrow> x) @ ''|'' @ spec_Subject.name subj @ ''|''
        @ replicate t (CHR ''.''))"

definition example_rule :: digest_rule where
  "example_rule =
     \<lparr>canonicalize = example_canonicalize, Digest = checksum, digest_size = 1\<rparr>"

definition alice :: spec_Subject where
  "alice = \<lparr>kind = User, name = ''alice'', spec_Subject.namespace = []\<rparr>"

definition example_events :: "event list" where
  "example_events =
     [\<lparr>ev_action = ''create'', ev_resourceKind = ''Role'', ev_resourceName = ''viewer'',
       ev_namespace = Some ''default'', ev_actor = alice, ev_timestamp = 1\<rparr>,
      \<lparr>ev_action = ''create'', ev_resourceKind = ''RoleBinding'', ev_resourceName = ''dev-view'',
       ev_namespace = Some ''default'', ev_actor = alice, ev_timestamp = 2\<rparr>,
      \<lparr>ev_action = ''delete'', ev_resourceKind = ''Role'', ev_resourceName = ''viewer'',
       ev_namespace = Some ''default'', ev_actor = alice, ev_timestamp = 3\<rparr>]"

definition example_row1 :: StoredRecord where
  "example_row1 =
     \<lparr>sequence = 1, action = ''create'', resourceKind = ''Role'', resourceName = ''viewer'',
      StoredRecord.namespace = Some ''default'', actor = alice, timestamp = 1,
      hash = [CHR 0xB4]\<rparr>"

definition example_row2 :: StoredRecord where
  "example_row2 =
     \<lparr>sequence = 2, action = ''create'', resourceKind = ''RoleBinding'',
      resourceName = ''dev-view'', StoredRecord.namespace = Some ''default'', actor = alice,
      timestamp = 2, hash = [CHR 0x09]\<rparr>"

definition example_row3 :: StoredRecord where
  "example_row3 =
     \<lparr>sequence = 3, action = ''delete'', resourceKind = ''Role'', resourceName = ''viewer'',
      StoredRecord.namespace = Some ''default'', actor = alice, timestamp = 3,
      hash = [CHR 0x5E]\<rparr>"

definition example_records :: "AuditRecord list" where
  "example_records =
     [StoredRecord.extend example_row1 (AuditRecord.fields [CHR 0x00]),
      StoredRecord.extend example_row2 (AuditRecord.fields [CHR 0xB4]),
      StoredRecord.extend example_row3 (AuditRecord.fields [CHR 0x09])]"


text \<open>
  Scenario 2 of the specification: a RoleBinding in namespace \<open>default\<close> binds the group
  \<open>dev\<close>, by a cluster \<open>roleRef\<close>, to the ClusterRole \<open>viewer\<close>.
\<close>

definition group_dev :: spec_Subject where
  "group_dev = \<lparr>kind = Group, spec_Subject.name = ''dev'', spec_Subject.namespace = []\<rparr>"

definition viewer_rule :: spec_PolicyRule where
  "viewer_rule =
     \<lparr>apiGroups = {[]}, resources = {''pods''}, verbs = {''get'', ''list''},
      resourceNames = {}\<rparr>"

definition viewer_role :: spec_ClusterRole where
  "viewer_role = \<lparr>spec_ClusterRole.name = ''viewer'', spec_ClusterRole.rules = [viewer_rule]\<rparr>"

definition dev_binding :: spec_RoleBinding where
  "dev_binding =
     \<lparr>spec_RoleBinding.name = ''dev-view'', spec_RoleBinding.namespace = ''default'',
      spec_RoleBinding.subjects = [group_dev],
      spec_RoleBinding.roleRef = \<lparr>scope = Cluster, spec_RoleRef.name = ''viewer''\<rparr>\<rparr>"

definition scenario2 :: Snapshot where
  "scenario2 =
     \<lparr>roles = [], clusterRoles = [viewer_role], roleBindings = [dev_binding],
      clusterRoleBindings = []\<rparr>"















text \<open>
  A store for the examples: the table \<open>audit_logs\<close>, with one column more than the
  handler selects, holds the morning record before the evening record.
\<close>

definition plain_message :: "sql_failure \<Rightarrow> string" where
  "plain_message f = ''sql: statement failed''"

definition row_morning :: "sql_value list" where
  "row_morning =
     [SqlInt 1, SqlText ''alice'', SqlText ''create'', SqlText ''viewer'', SqlText ''default'',
      SqlText ''2024-05-01T09:00:00Z'', SqlText ''9f2c'']"

definition row_evening :: "sql_value list" where
  "row_evening =
     [SqlInt 2, SqlText ''alice'', SqlText ''delete'', SqlText ''viewer'', SqlText ''default'',
      SqlText ''2024-05-02T17:30:00Z'', SqlText ''41ab'']"

definition audit_logs_table :: sql_table where
  "audit_logs_table =
     \<lparr>table_name = ''audit_logs'',
      table_columns =
        [''id'', ''actor'', ''action'', ''resource_name'', ''namespace'', ''timestamp'', ''hash''],
      table_rows = [row_morning, row_evening]\<rparr>"

definition example_store :: "sql_table list" where
  "example_store =
     [\<lparr>table_name = ''users'', table_columns = [''name''], table_rows = []\<rparr>,
      audit_logs_table]"

section \<open>The loops of the two functions, in closed form\<close>

lemma elems_append_slice: "elems (append_slice s x) = elems s @ [x]"
  by (cases s) simp_all

lemma subjects_loop_elems:
  "elems (subjects_loop g b ss acc) =
     elems acc @ replicate (length (filter (group_subject g) ss)) b"
  by (induction ss arbitrary: acc)
     (simp_all add: group_subject_def elems_append_slice replicate_app_Cons_same)

lemma roleBindings_loop_elems:
  "elems (roleBindings_loop g rbs acc) =
     elems acc @ concat (map (\<lambda>rb. replicate (length (filter (group_subject g) (RoleBinding.Subjects rb))) rb) rbs)"
  by (induction rbs arbitrary: acc) (simp_all add: subjects_loop_elems)

lemma clusterRoleBindings_loop_elems:
  "elems (clusterRoleBindings_loop g crbs acc) =
     elems acc @ concat (map (\<lambda>crb. replicate (length (filter (group_subject g) (ClusterRoleBinding.Subjects crb))) crb) crbs)"
  by (induction crbs arbitrary: acc) (simp_all add: subjects_loop_elems)

lemma clusterRoles_inner_elems:
  "elems (clusterRoles_inner crb crs acc) =
     elems acc @ filter (\<lambda>cr. ObjectMeta.Name (ClusterRole.ObjectMeta cr) = RoleRef.Name (ClusterRoleBinding.RoleRef crb)) crs"
  by (induction crs arbitrary: acc) (simp_all add: elems_append_slice)

lemma clusterRoles_loop_elems:
  "elems (clusterRoles_loop crbs crs acc) =
     elems acc @ concat (map (\<lambda>crb. filter (\<lambda>cr. ObjectMeta.Name (ClusterRole.ObjectMeta cr) = RoleRef.Name (ClusterRoleBinding.RoleRef crb)) crs) crbs)"
  by (induction crbs arbitrary: acc) (simp_all add: clusterRoles_inner_elems)

lemma subjects_loop_no_match:
  "filter (group_subject g) ss = [] \<Longrightarrow> subjects_loop g b ss acc = acc"
  by (induction ss arbitrary: acc) (auto simp: group_subject_def split: if_splits)

lemma roleBindings_loop_no_match:
  "\<forall>rb \<in> set rbs. \<forall>s \<in> set (RoleBinding.Subjects rb). \<not> group_subject g s
     \<Longrightarrow> roleBindings_loop g rbs acc = acc"
  by (induction rbs arbitrary: acc) (simp_all add: subjects_loop_no_match filter_empty_conv)

lemma clusterRoleBindings_loop_no_match:
  "\<forall>crb \<in> set crbs. \<forall>s \<in> set (ClusterRoleBinding.Subjects crb). \<not> group_subject g s
     \<Longrightarrow> clusterRoleBindings_loop g crbs acc = acc"
  by (induction crbs arbitrary: acc) (simp_all add: subjects_loop_no_match filter_empty_conv)

lemma extractGroupDetails_RoleBindings_elems:
  "elems (RoleBindings (extractGroupDetails g rbs crbs crs)) =
     concat (map (\<lambda>rb. replicate
       (length (filter (group_subject g) (RoleBinding.Subjects rb))) rb) rbs)"
  by (simp add: extractGroupDetails_def Let_def roleBindings_loop_elems)

lemma extractGroupDetails_ClusterRoleBindings_elems:
  "elems (ClusterRoleBindings (extractGroupDetails g rbs crbs crs)) =
     concat (map (\<lambda>crb. replicate
       (length (filter (group_subject g) (ClusterRoleBinding.Subjects crb))) crb) crbs)"
  by (simp add: extractGroupDetails_def Let_def clusterRoleBindings_loop_elems)

lemma count_list_concat_replicate:
  "count_list (concat (map (\<lambda>x. replicate (n x) x) xs)) y = count_list xs y * n y"
proof (induction xs)
  case Nil
  show ?case by simp
next
  case (Cons x xs)
  have r: "\<And>k. count_list (replicate k x) y = (if x = y then k else 0)"
    by (induct_tac k) auto
  show ?case using Cons by (simp add: r)
qed

lemma count_list_pos: "x \<in> set xs \<Longrightarrow> 0 < count_list xs x"
  by (induction xs) auto

lemma mult_gt_one: "0 < (c::nat) \<Longrightarrow> 1 < n \<Longrightarrow> 1 < c * n"
proof -
  assume "0 < c" "1 < n"
  then have "n \<le> c * n" by simp
  with \<open>1 < n\<close> show "1 < c * n" by linarith
qed

lemma groupSet_subjects_eq:
  "groupSet_subjects ss m = m \<union> {Subject.Name s | s. s \<in> set ss \<and> Subject.Kind s = GroupKind}"
  by (induction ss arbitrary: m) auto

lemma groupSet_roleBindings_eq:
  "groupSet_roleBindings rbs m =
     m \<union> {Subject.Name s | s rb. rb \<in> set rbs \<and> s \<in> set (RoleBinding.Subjects rb) \<and> Subject.Kind s = GroupKind}"
  by (induction rbs arbitrary: m) (auto simp: groupSet_subjects_eq)

lemma groupSet_clusterRoleBindings_eq:
  "groupSet_clusterRoleBindings crbs m =
     m \<union> {Subject.Name s | s crb. crb \<in> set crbs \<and> s \<in> set (ClusterRoleBinding.Subjects crb) \<and> Subject.Kind s = GroupKind}"
  by (induction crbs arbitrary: m) (auto simp: groupSet_subjects_eq)

lemma finite_groupSet_subjects: "finite m \<Longrightarrow> finite (groupSet_subjects ss m)"
  by (induction ss arbitrary: m) auto

lemma finite_groupSet_roleBindings: "finite m \<Longrightarrow> finite (groupSet_roleBindings rbs m)"
  by (induction rbs arbitrary: m) (auto simp: finite_groupSet_subjects)

lemma finite_groupSet_clusterRoleBindings: "finite m \<Longrightarrow> finite (groupSet_clusterRoleBindings rbs m)"
  by (induction rbs arbitrary: m) (auto simp: finite_groupSet_subjects)

lemma range_append_eq: "range_append ks (slice_of xs) = slice_of (xs @ ks)"
  by (induction ks arbitrary: xs) simp_all

lemma extractGroupsFromBindings_visit_eq: "extractGroupsFromBindings_visit ks = slice_of ks"
  by (simp add: extractGroupsFromBindings_visit_def make_slice_def range_append_eq)

lemma groupSet_of_eq:
  "groupSet_of rbs crbs =
     {N. (\<exists>rb \<in> set rbs. \<exists>s \<in> set (RoleBinding.Subjects rb).
            Subject.Kind s = GroupKind \<and> Subject.Name s = N)
       \<or> (\<exists>crb \<in> set crbs. \<exists>s \<in> set (ClusterRoleBinding.Subjects crb).
            Subject.Kind s = GroupKind \<and> Subject.Name s = N)}"
  unfolding groupSet_of_def groupSet_clusterRoleBindings_eq groupSet_roleBindings_eq
  by auto

lemma finite_groupSet_of: "finite (groupSet_of rbs crbs)"
  by (simp add: groupSet_of_def finite_groupSet_clusterRoleBindings finite_groupSet_roleBindings)

lemma extractGroupsFromBindings_iff:
  "extractGroupsFromBindings rbs crbs groups \<longleftrightarrow>
     (\<exists>ks. groups = slice_of ks \<and> set ks = groupSet_of rbs crbs \<and> distinct ks)"
  by (auto simp: extractGroupsFromBindings_def map_range_def extractGroupsFromBindings_visit_eq)

lemma extractGroupsFromBindings_returns: "\<exists>groups. extractGroupsFromBindings rbs crbs groups"
  using finite_distinct_list [OF finite_groupSet_of [of rbs crbs]]
  by (auto simp: extractGroupsFromBindings_iff)

lemma example_subject_fields:
  "Subject.Kind (Group_named n) = ''Group''" "Subject.Name (Group_named n) = n"
  "Subject.Kind (User_named n) = ''User''" "Subject.Name (User_named n) = n"
  "RoleRef.Name (ClusterRole_ref n) = n"
  by (simp_all add: Group_named_def User_named_def ClusterRole_ref_def)

lemma example_binding_fields:
  "RoleBinding.Subjects rb_dev_twice = [Group_named ''dev'', User_named ''alice'', Group_named ''dev'']"
  "RoleBinding.Subjects rb_no_subjects = []"
  "RoleBinding.Subjects rb_ops_dev = [Group_named ''ops'', Group_named ''dev'']"
  "ClusterRoleBinding.Subjects crb_admins = [Group_named ''admins'', User_named ''root'']"
  "ClusterRoleBinding.Subjects crb_alice = [User_named ''alice'']"
  "ClusterRoleBinding.RoleRef crb_admins = ClusterRole_ref ''cluster-admin''"
  "ClusterRoleBinding.RoleRef crb_alice = ClusterRole_ref ''viewer''"
  "ObjectMeta.Name (ClusterRole.ObjectMeta cr_cluster_admin) = ''cluster-admin''"
  "ObjectMeta.Name (ClusterRole.ObjectMeta cr_viewer) = ''viewer''"
  by (simp_all add: rb_dev_twice_def rb_no_subjects_def rb_ops_dev_def crb_admins_def
      crb_alice_def cr_cluster_admin_def cr_viewer_def)

lemmas example_fields = example_subject_fields example_binding_fields GroupKind_def

section \<open>The audit-log read handler: the loop and the query in closed form\<close>

lemma scan_rows_Scanned:
  "scan_rows (map Scanned recs) logs =
     \<lparr>status = StatusOK,
      body = json_slice AuditLog_json
               (if recs = [] then logs else slice_of (elems logs @ recs))\<rparr>"
proof (induction recs arbitrary: logs)
  case Nil
  show ?case by simp
next
  case (Cons r recs)
  show ?case by (cases logs) (simp_all add: Cons)
qed

lemma tokens_audit_logs_query:
  "tokens audit_logs_query =
     [''SELECT'', ''id'', ''action'', ''resource_name'', ''namespace'', ''timestamp'', ''hash'',
      ''FROM'', ''audit_logs'', ''ORDER'', ''BY'', ''timestamp'', ''DESC'']"
  by (simp add: tokens_def audit_logs_query_def)

lemma parse_audit_logs_query:
  "parse_select (tokens audit_logs_query) =
     Some \<lparr>sel_columns = audit_logs_columns, sel_table = ''audit_logs'',
           sel_order = Some (''timestamp'', Desc)\<rparr>"
  by (simp add: tokens_audit_logs_query parse_select_def parse_order_def audit_logs_columns_def)

lemma index_of_Some: "c \<in> set cs \<Longrightarrow> \<exists>i. index_of c cs = Some i"
  by (induction cs) auto

lemma column_indices_present:
  "set cs \<subseteq> set columns \<Longrightarrow>
     column_indices columns cs = Inr (map (\<lambda>c. the (index_of c columns)) cs)"
proof (induction cs)
  case Nil
  show ?case by simp
next
  case (Cons c cs)
  then obtain i where "index_of c columns = Some i"
    using index_of_Some [of c columns] by auto
  with Cons show ?case by simp
qed

lemma cell_the_index:
  "c \<in> set columns \<Longrightarrow> cell row (the (index_of c columns)) = column columns row c"
  using index_of_Some [of c columns] by (auto simp: column_def)


lemma json_string_ascii: "\<forall>c \<in> set s. byte c < 0x80 \<Longrightarrow> json_string s = s"
  by (induction s) (simp_all add: json_string.simps rune_width_def)

lemma id_of_Some: "id_of v = Some i \<Longrightarrow> v = SqlInt i \<and> int64 i"
  by (cases v) (simp_all add: id_of_def split: if_splits)

lemma text_of_Some: "text_of v = Some s \<Longrightarrow> v = SqlText s"
  by (cases v) (simp_all add: text_of_def)

lemma stored_AuditLog_columns:
  assumes "stored_AuditLog columns row = Some log"
  shows "column columns row ''id'' = SqlInt (ID log) \<and> int64 (ID log)
    \<and> column columns row ''action'' = SqlText (Action log)
    \<and> column columns row ''resource_name'' = SqlText (ResourceName log)
    \<and> column columns row ''namespace'' = SqlText (AuditLog.Namespace log)
    \<and> column columns row ''timestamp'' = SqlText (Timestamp log)
    \<and> column columns row ''hash'' = SqlText (Hash log)"
  using assms
  by (auto simp: stored_AuditLog_def split: option.splits dest!: id_of_Some text_of_Some)

lemma Scan_stored:
  assumes "stored_AuditLog columns row = Some log"
    and "set audit_logs_columns \<subseteq> set columns"
  shows "Scan_AuditLog (map (cell row) (map (\<lambda>c. the (index_of c columns)) audit_logs_columns))
    = Inr log"
proof -
  note c = stored_AuditLog_columns [OF assms(1)]
  have m: "''id'' \<in> set columns" "''action'' \<in> set columns" "''resource_name'' \<in> set columns"
    "''namespace'' \<in> set columns" "''timestamp'' \<in> set columns" "''hash'' \<in> set columns"
    using assms(2) by (simp_all add: audit_logs_columns_def)
  show ?thesis
    using c
    by (simp add: audit_logs_columns_def cell_the_index m Scan_AuditLog_def scan_int_def
        scan_string_def)
qed

lemma execute_audit_logs_query:
  assumes "find (\<lambda>t. table_name t = ''audit_logs'') store = Some t"
    and "set audit_logs_columns \<subseteq> set (table_columns t)"
  shows "execute store audit_logs_query =
     Inr (map (\<lambda>row. map (cell row)
                 (map (\<lambda>c. the (index_of c (table_columns t))) audit_logs_columns))
            (rev (sort_key (\<lambda>row. sql_key (column (table_columns t) row ''timestamp''))
                    (table_rows t))))"
proof -
  have ts: "''timestamp'' \<in> set (table_columns t)"
    using assms(2) by (simp add: audit_logs_columns_def)
  then obtain i where i: "index_of ''timestamp'' (table_columns t) = Some i"
    using index_of_Some by blast
  have key: "(\<lambda>row. sql_key (cell row i)) =
      (\<lambda>row. sql_key (column (table_columns t) row ''timestamp''))"
    by (simp add: column_def i)
  show ?thesis
    by (simp add: execute_def parse_audit_logs_query assms(1)
        column_indices_present [OF assms(2)] i order_rows_def key)
qed

lemma example_table: "find (\<lambda>t. table_name t = ''audit_logs'') example_store = Some audit_logs_table"
  by (simp add: example_store_def audit_logs_table_def)

lemma example_columns: "set audit_logs_columns \<subseteq> set (table_columns audit_logs_table)"
  by (simp add: audit_logs_columns_def audit_logs_table_def)

lemma example_stored:
  "stored_AuditLog (table_columns audit_logs_table) row_morning = Some log_morning"
  "stored_AuditLog (table_columns audit_logs_table) row_evening = Some log_evening"
  by (simp_all add: stored_AuditLog_def column_def cell_def id_of_def text_of_def int64_def
      audit_logs_table_def row_morning_def row_evening_def log_morning_def log_evening_def)

section \<open>The audit chain: appends and verification\<close>

lemma Append_eq:
  "Append R e c =
     Inr (\<lparr>sequence = fst (chain_tail R c) + 1, action = ev_action e,
           resourceKind = ev_resourceKind e, resourceName = ev_resourceName e,
           StoredRecord.namespace = ev_namespace e, actor = ev_actor e,
           timestamp = ev_timestamp e,
           hash = record_hash R (fst (chain_tail R c) + 1, ev_action e, ev_resourceKind e,
                    ev_resourceName e, ev_namespace e, ev_actor e, ev_timestamp e)
                    (snd (chain_tail R c)),
           previousHash = snd (chain_tail R c)\<rparr>,
          c @ [\<lparr>sequence = fst (chain_tail R c) + 1, action = ev_action e,
           resourceKind = ev_resourceKind e, resourceName = ev_resourceName e,
           StoredRecord.namespace = ev_namespace e, actor = ev_actor e,
           timestamp = ev_timestamp e,
           hash = record_hash R (fst (chain_tail R c) + 1, ev_action e, ev_resourceKind e,
                    ev_resourceName e, ev_namespace e, ev_actor e, ev_timestamp e)
                    (snd (chain_tail R c))\<rparr>])"
  by (simp add: Append_def Let_def append_if_tail_def StoredRecord.extend_def
      AuditRecord.fields_def)

lemma stored_of_simps:
  "sequence (stored_of r) = sequence r" "hash (stored_of r) = hash r"
  "fields_of (stored_of r) = fields_of r"
  by (simp_all add: stored_of_def StoredRecord.truncate_def fields_of_def)

lemma Append_props:
  "\<exists>r. Append R e c = Inr (r, c @ [stored_of r])
     \<and> sequence r = fst (chain_tail R c) + 1
     \<and> previousHash r = snd (chain_tail R c)
     \<and> hash r = record_hash R (fields_of r) (snd (chain_tail R c))"
  unfolding Append_eq
  by (simp add: stored_of_def StoredRecord.truncate_def fields_of_def)

lemma chain_tail_snoc: "chain_tail R (c @ [row]) = (sequence row, hash row)"
  by (simp add: chain_tail_def)

lemma chain_tail_Nil: "chain_tail R [] = (0, genesis R)"
  by (simp add: chain_tail_def)

lemma Appends_linked:
  "\<exists>rs. Appends R es c = Inr (rs, c @ map stored_of rs) \<and> length rs = length es
     \<and> linked R (fst (chain_tail R c)) (snd (chain_tail R c)) rs"
proof (induction es arbitrary: c)
  case Nil
  show ?case by simp
next
  case (Cons e es)
  obtain r where r: "Append R e c = Inr (r, c @ [stored_of r])"
    "sequence r = fst (chain_tail R c) + 1" "previousHash r = snd (chain_tail R c)"
    "hash r = record_hash R (fields_of r) (snd (chain_tail R c))"
    using Append_props [of R e c] by blast
  obtain rs where rs: "Appends R es (c @ [stored_of r]) = Inr (rs, (c @ [stored_of r]) @ map stored_of rs)"
    "length rs = length es"
    "linked R (fst (chain_tail R (c @ [stored_of r]))) (snd (chain_tail R (c @ [stored_of r]))) rs"
    using Cons.IH [of "c @ [stored_of r]"] by blast
  have "Appends R (e # es) c = Inr (r # rs, c @ map stored_of (r # rs))"
    by (simp add: r(1) rs(1))
  moreover have "linked R (fst (chain_tail R c)) (snd (chain_tail R c)) (r # rs)"
    using r(2-4) rs(3) by (simp add: chain_tail_snoc stored_of_simps)
  ultimately show ?case using rs(2) by (intro exI [of _ "r # rs"]) simp
qed

lemma linked_nth:
  "linked R s p rs \<Longrightarrow> i < length rs \<Longrightarrow>
     sequence (rs ! i) = s + of_nat (Suc i)
     \<and> previousHash (rs ! i) = (if i = 0 then p else hash (rs ! (i - 1)))
     \<and> hash (rs ! i) = record_hash R (fields_of (rs ! i)) (previousHash (rs ! i))"
proof (induction rs arbitrary: s p i)
  case Nil
  then show ?case by simp
next
  case (Cons r rs)
  show ?case
  proof (cases i)
    case 0
    with Cons.prems show ?thesis by simp
  next
    case (Suc j)
    with Cons.prems have j: "j < length rs"
      and l: "linked R (s + 1) (record_hash R (fields_of r) p) rs"
      and h: "hash r = record_hash R (fields_of r) p"
      by simp_all
    from Cons.IH [OF l j] h Suc show ?thesis
      by (cases j) (simp_all add: algebra_simps)
  qed
qed


lemma unat_of_nat_64: "n < 2 ^ 64 \<Longrightarrow> unat (of_nat n :: 64 word) = n"
  by (simp add: unat_of_nat)








lemma example_Appends:
  "Appends example_rule example_events [] =
     Inr (example_records, [example_row1, example_row2, example_row3])"
  by (simp add: Append_eq example_events_def example_records_def example_row1_def
      example_row2_def example_row3_def chain_tail_def genesis_def record_hash_def
      example_rule_def example_canonicalize_def checksum_def alice_def
      StoredRecord.extend_def AuditRecord.fields_def sum_list_replicate char_of_eq_iff)

lemma example_events_length: "length example_events < 2 ^ 64"
  by (simp add: example_events_def)











section \<open>The resolver: the traversal in closed form\<close>

lemma set_add_permissions: "set (add_permissions acc ps) = set acc \<union> set ps"
  by (induction ps arbitrary: acc) auto

lemma distinct_add_permissions: "distinct acc \<Longrightarrow> distinct (add_permissions acc ps)"
  by (induction ps arbitrary: acc) auto

lemma permissions_accumulate:
  "set (permissions (accumulate acc res)) = set (permissions acc) \<union> result_set res"
  by (cases res) (simp_all add: accumulate_def result_set_def set_add_permissions)

lemma distinct_accumulate:
  "distinct (permissions acc) \<Longrightarrow> distinct (permissions (accumulate acc res))"
  by (cases res) (simp_all add: accumulate_def distinct_add_permissions)

lemma result_set_resolve_RoleBinding:
  "result_set (resolve_RoleBinding snap b) = RoleBinding_grants snap b"
proof (cases "scope (spec_RoleBinding.roleRef b)")
  case Namespaced
  let ?rs = "filter (\<lambda>r. spec_Role.name r = spec_RoleRef.name (spec_RoleBinding.roleRef b)
                 \<and> spec_Role.namespace r = spec_RoleBinding.namespace b) (roles snap)"
  have "result_set (resolve_RoleBinding snap b) =
      Pair (spec_RoleBinding.namespace b) ` (\<Union>r \<in> set ?rs. set (spec_Role.rules r))"
    using Namespaced
    by (cases ?rs) (auto simp: resolve_RoleBinding_def result_set_def)
  also have "\<dots> = RoleBinding_grants snap b"
    using Namespaced by (auto simp: RoleBinding_grants_def)
  finally show ?thesis .
next
  case Cluster
  let ?rs = "filter (\<lambda>r. spec_ClusterRole.name r =
                 spec_RoleRef.name (spec_RoleBinding.roleRef b)) (clusterRoles snap)"
  have "result_set (resolve_RoleBinding snap b) =
      Pair (spec_RoleBinding.namespace b) ` (\<Union>r \<in> set ?rs. set (spec_ClusterRole.rules r))"
    using Cluster
    by (cases ?rs) (auto simp: resolve_RoleBinding_def result_set_def)
  also have "\<dots> = RoleBinding_grants snap b"
    using Cluster by (auto simp: RoleBinding_grants_def)
  finally show ?thesis .
qed

lemma result_set_resolve_ClusterRoleBinding:
  "result_set (resolve_ClusterRoleBinding snap b) = ClusterRoleBinding_grants snap b"
proof (cases "scope (spec_ClusterRoleBinding.roleRef b)")
  case Namespaced
  then show ?thesis
    by (simp add: resolve_ClusterRoleBinding_def result_set_def ClusterRoleBinding_grants_def)
next
  case Cluster
  let ?rs = "filter (\<lambda>r. spec_ClusterRole.name r =
                 spec_RoleRef.name (spec_ClusterRoleBinding.roleRef b)) (clusterRoles snap)"
  have "result_set (resolve_ClusterRoleBinding snap b) =
      Pair cluster_wide ` (\<Union>r \<in> set ?rs. set (spec_ClusterRole.rules r))"
    using Cluster
    by (cases ?rs) (auto simp: resolve_ClusterRoleBinding_def result_set_def)
  also have "\<dots> = ClusterRoleBinding_grants snap b"
    using Cluster by (auto simp: ClusterRoleBinding_grants_def)
  finally show ?thesis .
qed

lemma permissions_resolve_RoleBindings:
  "set (permissions (resolve_RoleBindings snap s bs acc)) =
     set (permissions acc)
     \<union> (\<Union>b \<in> {b \<in> set bs. s \<in> set (spec_RoleBinding.subjects b)}. RoleBinding_grants snap b)"
  by (induction bs arbitrary: acc)
     (auto simp: permissions_accumulate result_set_resolve_RoleBinding)

lemma permissions_resolve_ClusterRoleBindings:
  "set (permissions (resolve_ClusterRoleBindings snap s bs acc)) =
     set (permissions acc)
     \<union> (\<Union>b \<in> {b \<in> set bs. s \<in> set (spec_ClusterRoleBinding.subjects b)}.
          ClusterRoleBinding_grants snap b)"
  by (induction bs arbitrary: acc)
     (auto simp: permissions_accumulate result_set_resolve_ClusterRoleBinding)

lemma distinct_resolve_RoleBindings:
  "distinct (permissions acc) \<Longrightarrow> distinct (permissions (resolve_RoleBindings snap s bs acc))"
  by (induction bs arbitrary: acc) (simp_all add: distinct_accumulate)

lemma distinct_resolve_ClusterRoleBindings:
  "distinct (permissions acc) \<Longrightarrow>
     distinct (permissions (resolve_ClusterRoleBindings snap s bs acc))"
  by (induction bs arbitrary: acc) (simp_all add: distinct_accumulate)

lemma set_ResolveEffectivePermissions:
  "set (ResolveEffectivePermissions s snap) = granted s snap"
  by (simp add: ResolveEffectivePermissions_def resolve_def granted_def
      permissions_resolve_ClusterRoleBindings permissions_resolve_RoleBindings)

lemma distinct_ResolveEffectivePermissions: "distinct (ResolveEffectivePermissions s snap)"
  by (simp add: ResolveEffectivePermissions_def resolve_def
      distinct_resolve_ClusterRoleBindings distinct_resolve_RoleBindings)

lemma granted_same_objects: "same_objects snap snap' \<Longrightarrow> granted s snap = granted s snap'"
proof -
  assume "same_objects snap snap'"
  then have s: "set (roles snap) = set (roles snap')"
    "set (clusterRoles snap) = set (clusterRoles snap')"
    "set (roleBindings snap) = set (roleBindings snap')"
    "set (clusterRoleBindings snap) = set (clusterRoleBindings snap')"
    unfolding same_objects_def by (metis mset_eq_setD)+
  have "RoleBinding_grants snap b = RoleBinding_grants snap' b" for b
    by (simp only: RoleBinding_grants_def s)
  moreover have "ClusterRoleBinding_grants snap b = ClusterRoleBinding_grants snap' b" for b
    by (simp only: ClusterRoleBinding_grants_def s)
  ultimately show ?thesis by (simp only: granted_def s)
qed

lemma scenario2_resolved:
  "ResolveEffectivePermissions group_dev scenario2 = [(''default'', viewer_rule)]"
  by (simp add: ResolveEffectivePermissions_def resolve_def scenario2_def dev_binding_def
      viewer_role_def accumulate_def resolve_RoleBinding_def)

section \<open>Referenced groups and group details: the claims\<close>

text \<open>
  Claim C4. For every listing of RoleBindings and ClusterRoleBindings,
  \<open>extractGroupsFromBindings\<close> returns a slice, and whatever the order in which the map
  is visited, the returned slice holds exactly the names of the subjects of kind Group of
  some RoleBinding or some ClusterRoleBinding of the listing, each name once.
\<close>

theorem extractGroupsFromBindings_exact:
  "(\<exists>groups. extractGroupsFromBindings rbs crbs groups) \<and>
   (\<forall>groups. extractGroupsFromBindings rbs crbs groups \<longrightarrow>
      set (elems groups) = group_names rbs crbs \<and> distinct (elems groups))"
proof -
  have names: "group_names rbs crbs = groupSet_of rbs crbs"
    by (simp only: group_names_def groupSet_of_eq)
  show ?thesis
    using extractGroupsFromBindings_returns [of rbs crbs]
    by (auto simp: extractGroupsFromBindings_iff names)
qed

theorem extractGroupsFromBindings_exact_witness:
  "extractGroupsFromBindings [rb_ops_dev, rb_dev_twice] [crb_admins]
     (slice_of [''ops'', ''dev'', ''admins''])
   \<and> set [''ops'', ''dev'', ''admins''] = group_names [rb_ops_dev, rb_dev_twice] [crb_admins]
   \<and> distinct [''ops'', ''dev'', ''admins'']"
proof -
  have r: "extractGroupsFromBindings [rb_ops_dev, rb_dev_twice] [crb_admins]
     (slice_of [''ops'', ''dev'', ''admins''])"
    unfolding extractGroupsFromBindings_iff
    by (rule exI [of _ "[''ops'', ''dev'', ''admins'']"])
       (auto simp: groupSet_of_def example_fields)
  from extractGroupsFromBindings_exact [of "[rb_ops_dev, rb_dev_twice]" "[crb_admins]"] r
  show ?thesis by fastforce
qed

text \<open>
  Claim C5, as the code has it. The last loop of \<open>extractGroupsFromBindings\<close> ranges over
  a Go map, so two runs on the same listing may return the names in different orders.
  What two runs on one listing share is the set of names, each name once, and hence the
  length.
\<close>

theorem extractGroupsFromBindings_same_names:
  assumes "extractGroupsFromBindings rbs crbs groups1"
    and "extractGroupsFromBindings rbs crbs groups2"
  shows "set (elems groups1) = set (elems groups2) \<and> distinct (elems groups1)
    \<and> distinct (elems groups2) \<and> length (elems groups1) = length (elems groups2)"
proof -
  from assms obtain ks1 ks2 where
    k1: "groups1 = slice_of ks1" "set ks1 = groupSet_of rbs crbs" "distinct ks1" and
    k2: "groups2 = slice_of ks2" "set ks2 = groupSet_of rbs crbs" "distinct ks2"
    by (auto simp: extractGroupsFromBindings_iff)
  have "length ks1 = card (groupSet_of rbs crbs)" "length ks2 = card (groupSet_of rbs crbs)"
    using k1 k2 distinct_card by metis+
  with k1 k2 show ?thesis by simp
qed

theorem extractGroupsFromBindings_same_names_witness:
  "extractGroupsFromBindings [rb_ops_dev] [] (slice_of [''ops'', ''dev''])
   \<and> extractGroupsFromBindings [rb_ops_dev] [] (slice_of [''dev'', ''ops''])
   \<and> set (elems (slice_of [''ops'', ''dev''])) = set (elems (slice_of [''dev'', ''ops'']))
   \<and> length (elems (slice_of [''ops'', ''dev''])) = length (elems (slice_of [''dev'', ''ops'']))"
proof -
  have s: "groupSet_of [rb_ops_dev] [] = {''ops'', ''dev''}"
    by (auto simp: groupSet_of_def example_fields)
  have a: "extractGroupsFromBindings [rb_ops_dev] [] (slice_of [''ops'', ''dev''])"
    unfolding extractGroupsFromBindings_iff s by auto
  have b: "extractGroupsFromBindings [rb_ops_dev] [] (slice_of [''dev'', ''ops''])"
    unfolding extractGroupsFromBindings_iff s by auto
  from extractGroupsFromBindings_same_names [OF a b] a b show ?thesis by simp
qed

text \<open>
  For the listing of the single RoleBinding \<open>rb_ops_dev\<close>, whose subjects are the groups
  \<open>ops\<close> and \<open>dev\<close>, both \<open>[ops, dev]\<close> and \<open>[dev, ops]\<close> are results of
  \<open>extractGroupsFromBindings\<close>: the output is not the same sequence on every run.
\<close>

theorem extractGroupsFromBindings_order_counterexample:
  "extractGroupsFromBindings [rb_ops_dev] [] (slice_of [''ops'', ''dev''])
   \<and> extractGroupsFromBindings [rb_ops_dev] [] (slice_of [''dev'', ''ops''])
   \<and> slice_of [''ops'', ''dev''] \<noteq> slice_of [''dev'', ''ops'']"
proof -
  have s: "groupSet_of [rb_ops_dev] [] = {''ops'', ''dev''}"
    by (auto simp: groupSet_of_def example_fields)
  have "map_range (groupSet_of [rb_ops_dev] []) [''ops'', ''dev'']"
    and "map_range (groupSet_of [rb_ops_dev] []) [''dev'', ''ops'']"
    unfolding s map_range_def by auto
  then show ?thesis
    unfolding extractGroupsFromBindings_def extractGroupsFromBindings_visit_def make_slice_def
    by (intro conjI exI [of _ "[''ops'', ''dev'']"] exI [of _ "[''dev'', ''ops'']"]) simp_all
qed

text \<open>
  Claim C6. For every group name \<open>g\<close> and every listing, the RoleBindings and
  ClusterRoleBindings of \<open>extractGroupDetails g\<close> are exactly those of the listing with
  a subject of kind Group named \<open>g\<close>, and its ClusterRoles are exactly the ClusterRoles
  of the listing whose name is the \<open>RoleRef.Name\<close> of a returned ClusterRoleBinding.
\<close>

theorem extractGroupDetails_exact:
  "set (elems (RoleBindings (extractGroupDetails g rbs crbs crs))) =
     {rb \<in> set rbs. \<exists>s \<in> set (RoleBinding.Subjects rb).
        Subject.Kind s = GroupKind \<and> Subject.Name s = g}
   \<and> set (elems (ClusterRoleBindings (extractGroupDetails g rbs crbs crs))) =
     {crb \<in> set crbs. \<exists>s \<in> set (ClusterRoleBinding.Subjects crb).
        Subject.Kind s = GroupKind \<and> Subject.Name s = g}
   \<and> set (elems (ClusterRoles (extractGroupDetails g rbs crbs crs))) =
     {cr \<in> set crs. \<exists>crb \<in> set (elems (ClusterRoleBindings (extractGroupDetails g rbs crbs crs))).
        ObjectMeta.Name (ClusterRole.ObjectMeta cr) = RoleRef.Name (ClusterRoleBinding.RoleRef crb)}
   \<and> GroupName (extractGroupDetails g rbs crbs crs) = g"
proof -
  have filt: "\<And>ss. (filter (group_subject g) ss \<noteq> []) =
      (\<exists>s \<in> set ss. Subject.Kind s = GroupKind \<and> Subject.Name s = g)"
    by (auto simp: filter_empty_conv group_subject_def)
  have a: "set (elems (roleBindings_loop g rbs nil_slice)) =
     {rb \<in> set rbs. \<exists>s \<in> set (RoleBinding.Subjects rb).
        Subject.Kind s = GroupKind \<and> Subject.Name s = g}"
    unfolding roleBindings_loop_elems by (auto simp: filt [symmetric])
  have b: "set (elems (clusterRoleBindings_loop g crbs nil_slice)) =
     {crb \<in> set crbs. \<exists>s \<in> set (ClusterRoleBinding.Subjects crb).
        Subject.Kind s = GroupKind \<and> Subject.Name s = g}"
    unfolding clusterRoleBindings_loop_elems by (auto simp: filt [symmetric])
  have c: "\<And>xs. set (elems (clusterRoles_loop xs crs nil_slice)) =
     {cr \<in> set crs. \<exists>crb \<in> set xs.
        ObjectMeta.Name (ClusterRole.ObjectMeta cr) = RoleRef.Name (ClusterRoleBinding.RoleRef crb)}"
    unfolding clusterRoles_loop_elems by auto
  show ?thesis
    unfolding extractGroupDetails_def Let_def by (simp add: a b c)
qed

theorem extractGroupDetails_exact_witness:
  "extractGroupDetails ''admins'' [rb_ops_dev] [crb_alice, crb_admins] [cr_viewer, cr_cluster_admin]
     = \<lparr>GroupName = ''admins'', RoleBindings = nil_slice,
        ClusterRoleBindings = slice_of [crb_admins], ClusterRoles = slice_of [cr_cluster_admin]\<rparr>
   \<and> {crb \<in> set [crb_alice, crb_admins]. \<exists>s \<in> set (ClusterRoleBinding.Subjects crb).
        Subject.Kind s = GroupKind \<and> Subject.Name s = ''admins''} = {crb_admins}
   \<and> {cr \<in> set [cr_viewer, cr_cluster_admin]. \<exists>crb \<in> set [crb_admins].
        ObjectMeta.Name (ClusterRole.ObjectMeta cr) = RoleRef.Name (ClusterRoleBinding.RoleRef crb)}
       = {cr_cluster_admin}"
proof -
  let ?d = "extractGroupDetails ''admins'' [rb_ops_dev] [crb_alice, crb_admins]
      [cr_viewer, cr_cluster_admin]"
  have e: "?d = \<lparr>GroupName = ''admins'', RoleBindings = nil_slice,
        ClusterRoleBindings = slice_of [crb_admins], ClusterRoles = slice_of [cr_cluster_admin]\<rparr>"
    by (simp add: extractGroupDetails_def example_fields)
  note t = extractGroupDetails_exact [of "''admins''" "[rb_ops_dev]" "[crb_alice, crb_admins]"
      "[cr_viewer, cr_cluster_admin]"]
  have b: "set (elems (ClusterRoleBindings ?d)) = {crb_admins}"
    and c: "set (elems (ClusterRoles ?d)) = {cr_cluster_admin}"
    by (simp_all add: e)
  have t2: "set (elems (ClusterRoleBindings ?d)) =
     {crb \<in> set [crb_alice, crb_admins]. \<exists>s \<in> set (ClusterRoleBinding.Subjects crb).
        Subject.Kind s = GroupKind \<and> Subject.Name s = ''admins''}"
    by (rule conjunct1 [OF conjunct2 [OF t]])
  have t3: "set (elems (ClusterRoles ?d)) =
     {cr \<in> set [cr_viewer, cr_cluster_admin]. \<exists>crb \<in> set (elems (ClusterRoleBindings ?d)).
        ObjectMeta.Name (ClusterRole.ObjectMeta cr) = RoleRef.Name (ClusterRoleBinding.RoleRef crb)}"
    by (rule conjunct1 [OF conjunct2 [OF conjunct2 [OF t]]])
  have els: "elems (ClusterRoleBindings ?d) = [crb_admins]"
    by (simp add: e)
  from t2 [unfolded b] t3 [unfolded c els] e show ?thesis
    by (intro conjI) (rule e, rule sym, assumption, rule sym, assumption)
qed

text \<open>
  Claim C7. When no subject of any binding of the listing is the Group \<open>g\<close> (no binding
  at all, or bindings with empty subject lists, among others), \<open>extractGroupDetails g\<close>
  returns the response with the three slices nil; when no subject of any binding has
  kind Group, the only result of \<open>extractGroupsFromBindings\<close> is the empty slice. Both
  functions return a value on every input: neither has an error result.
\<close>

theorem no_match_empty_result:
  "((\<forall>rb \<in> set rbs. \<forall>s \<in> set (RoleBinding.Subjects rb). \<not> group_subject g s)
      \<and> (\<forall>crb \<in> set crbs. \<forall>s \<in> set (ClusterRoleBinding.Subjects crb). \<not> group_subject g s)
     \<longrightarrow> extractGroupDetails g rbs crbs crs =
           \<lparr>GroupName = g, RoleBindings = nil_slice, ClusterRoleBindings = nil_slice,
            ClusterRoles = nil_slice\<rparr>)
   \<and> ((\<forall>rb \<in> set rbs. \<forall>s \<in> set (RoleBinding.Subjects rb). Subject.Kind s \<noteq> GroupKind)
      \<and> (\<forall>crb \<in> set crbs. \<forall>s \<in> set (ClusterRoleBinding.Subjects crb).
            Subject.Kind s \<noteq> GroupKind)
     \<longrightarrow> (\<forall>groups. extractGroupsFromBindings rbs crbs groups \<longleftrightarrow> groups = slice_of []))"
proof (intro conjI impI)
  assume "(\<forall>rb \<in> set rbs. \<forall>s \<in> set (RoleBinding.Subjects rb). \<not> group_subject g s)
      \<and> (\<forall>crb \<in> set crbs. \<forall>s \<in> set (ClusterRoleBinding.Subjects crb). \<not> group_subject g s)"
  then show "extractGroupDetails g rbs crbs crs =
           \<lparr>GroupName = g, RoleBindings = nil_slice, ClusterRoleBindings = nil_slice,
            ClusterRoles = nil_slice\<rparr>"
    by (simp add: extractGroupDetails_def Let_def roleBindings_loop_no_match
        clusterRoleBindings_loop_no_match)
next
  assume "(\<forall>rb \<in> set rbs. \<forall>s \<in> set (RoleBinding.Subjects rb). Subject.Kind s \<noteq> GroupKind)
      \<and> (\<forall>crb \<in> set crbs. \<forall>s \<in> set (ClusterRoleBinding.Subjects crb).
            Subject.Kind s \<noteq> GroupKind)"
  then have "groupSet_of rbs crbs = {}"
    unfolding groupSet_of_eq by auto
  then show "\<forall>groups. extractGroupsFromBindings rbs crbs groups \<longleftrightarrow> groups = slice_of []"
    by (auto simp: extractGroupsFromBindings_iff)
qed

theorem no_match_empty_result_witness:
  "extractGroupDetails ''dev'' [rb_no_subjects] [crb_alice] [cr_viewer] =
     \<lparr>GroupName = ''dev'', RoleBindings = nil_slice, ClusterRoleBindings = nil_slice,
      ClusterRoles = nil_slice\<rparr>
   \<and> extractGroupDetails ''dev'' [] [] [] =
     \<lparr>GroupName = ''dev'', RoleBindings = nil_slice, ClusterRoleBindings = nil_slice,
      ClusterRoles = nil_slice\<rparr>
   \<and> extractGroupsFromBindings [rb_no_subjects] [crb_alice] (slice_of [])
   \<and> \<not> extractGroupsFromBindings [rb_no_subjects] [crb_alice] nil_slice"
proof -
  have h1: "(\<forall>rb \<in> set [rb_no_subjects]. \<forall>s \<in> set (RoleBinding.Subjects rb).
               \<not> group_subject ''dev'' s)
      \<and> (\<forall>crb \<in> set [crb_alice]. \<forall>s \<in> set (ClusterRoleBinding.Subjects crb).
               \<not> group_subject ''dev'' s)"
    by (simp add: group_subject_def example_fields)
  have h2: "(\<forall>rb \<in> set [rb_no_subjects]. \<forall>s \<in> set (RoleBinding.Subjects rb).
               Subject.Kind s \<noteq> GroupKind)
      \<and> (\<forall>crb \<in> set [crb_alice]. \<forall>s \<in> set (ClusterRoleBinding.Subjects crb).
               Subject.Kind s \<noteq> GroupKind)"
    by (simp add: example_fields)
  from no_match_empty_result [of "[rb_no_subjects]" "''dev''" "[crb_alice]" "[cr_viewer]"]
    no_match_empty_result [of "[]" "''dev''" "[]" "[]"] h1 h2
  show ?thesis by simp
qed

text \<open>
  Claim C9. The output of \<open>extractGroupDetails g\<close> lists each binding once per subject
  entry of that binding with kind Group and name \<open>g\<close>, in the order of the listing: a
  binding occurs in the output as often as it occurs in the listing times the number of
  such entries. In particular a binding of the listing with more than one such entry
  occurs more than once in the output.
\<close>

theorem extractGroupDetails_once_per_subject:
  "elems (RoleBindings (extractGroupDetails g rbs crbs crs)) =
     concat (map (\<lambda>rb. replicate
       (length (filter (group_subject g) (RoleBinding.Subjects rb))) rb) rbs)
   \<and> elems (ClusterRoleBindings (extractGroupDetails g rbs crbs crs)) =
     concat (map (\<lambda>crb. replicate
       (length (filter (group_subject g) (ClusterRoleBinding.Subjects crb))) crb) crbs)
   \<and> (\<forall>rb. count_list (elems (RoleBindings (extractGroupDetails g rbs crbs crs))) rb =
         count_list rbs rb * length (filter (group_subject g) (RoleBinding.Subjects rb)))
   \<and> (\<forall>crb. count_list (elems (ClusterRoleBindings (extractGroupDetails g rbs crbs crs))) crb =
         count_list crbs crb * length (filter (group_subject g) (ClusterRoleBinding.Subjects crb)))
   \<and> (\<forall>rb \<in> set rbs. 1 < length (filter (group_subject g) (RoleBinding.Subjects rb)) \<longrightarrow>
         1 < count_list (elems (RoleBindings (extractGroupDetails g rbs crbs crs))) rb)
   \<and> (\<forall>crb \<in> set crbs.
         1 < length (filter (group_subject g) (ClusterRoleBinding.Subjects crb)) \<longrightarrow>
         1 < count_list (elems (ClusterRoleBindings (extractGroupDetails g rbs crbs crs))) crb)"
proof (intro conjI allI ballI impI)
  show "elems (RoleBindings (extractGroupDetails g rbs crbs crs)) =
     concat (map (\<lambda>rb. replicate
       (length (filter (group_subject g) (RoleBinding.Subjects rb))) rb) rbs)"
    by (rule extractGroupDetails_RoleBindings_elems)
  show "elems (ClusterRoleBindings (extractGroupDetails g rbs crbs crs)) =
     concat (map (\<lambda>crb. replicate
       (length (filter (group_subject g) (ClusterRoleBinding.Subjects crb))) crb) crbs)"
    by (rule extractGroupDetails_ClusterRoleBindings_elems)
next
  fix rb
  show "count_list (elems (RoleBindings (extractGroupDetails g rbs crbs crs))) rb =
         count_list rbs rb * length (filter (group_subject g) (RoleBinding.Subjects rb))"
    unfolding extractGroupDetails_RoleBindings_elems by (rule count_list_concat_replicate)
next
  fix crb
  show "count_list (elems (ClusterRoleBindings (extractGroupDetails g rbs crbs crs))) crb =
         count_list crbs crb * length (filter (group_subject g) (ClusterRoleBinding.Subjects crb))"
    unfolding extractGroupDetails_ClusterRoleBindings_elems by (rule count_list_concat_replicate)
next
  fix rb
  assume "rb \<in> set rbs" "1 < length (filter (group_subject g) (RoleBinding.Subjects rb))"
  then show "1 < count_list (elems (RoleBindings (extractGroupDetails g rbs crbs crs))) rb"
    unfolding extractGroupDetails_RoleBindings_elems count_list_concat_replicate
    by (intro mult_gt_one count_list_pos)
next
  fix crb
  assume "crb \<in> set crbs"
    "1 < length (filter (group_subject g) (ClusterRoleBinding.Subjects crb))"
  then show "1 < count_list (elems (ClusterRoleBindings (extractGroupDetails g rbs crbs crs))) crb"
    unfolding extractGroupDetails_ClusterRoleBindings_elems count_list_concat_replicate
    by (intro mult_gt_one count_list_pos)
qed

theorem extractGroupDetails_once_per_subject_witness:
  "1 < length (filter (group_subject ''dev'') (RoleBinding.Subjects rb_dev_twice))
   \<and> elems (RoleBindings (extractGroupDetails ''dev'' [rb_ops_dev, rb_dev_twice] [] [])) =
       [rb_ops_dev, rb_dev_twice, rb_dev_twice]
   \<and> 1 < count_list (elems (RoleBindings
         (extractGroupDetails ''dev'' [rb_ops_dev, rb_dev_twice] [] []))) rb_dev_twice"
proof -
  have h: "1 < length (filter (group_subject ''dev'') (RoleBinding.Subjects rb_dev_twice))"
    by (simp add: group_subject_def example_fields)
  have e: "concat (map (\<lambda>rb. replicate
       (length (filter (group_subject ''dev'') (RoleBinding.Subjects rb))) rb)
       [rb_ops_dev, rb_dev_twice]) = [rb_ops_dev, rb_dev_twice, rb_dev_twice]"
    by (simp add: group_subject_def example_fields)
  from extractGroupDetails_once_per_subject [of "''dev''" "[rb_ops_dev, rb_dev_twice]" "[]" "[]"]
  show ?thesis using h e by simp
qed

section \<open>The audit-log read handler: the claims\<close>

text \<open>
  Claim C8. Let the store hold a table \<open>audit_logs\<close> with the six columns the handler
  selects, every row of which holds an audit record (an integer id and five texts).
  Then the handler, sending its statement to \<open>db.DB.Query\<close>, answers 200 with exactly the
  stored records, ordered by timestamp descending, each as an object with exactly the
  keys \<open>id\<close>, \<open>action\<close>, \<open>resource_name\<close>, \<open>namespace\<close>, \<open>timestamp\<close> and \<open>hash\<close>
  carrying the values of that record (strings as \<open>encoding/json\<close> writes them); with no
  row the body is \<open>null\<close>. The order comes from the \<open>ORDER BY timestamp DESC\<close> of the
  statement and the values from the order of its column list and of the destinations of
  \<open>rows.Scan\<close>.
\<close>

theorem GetAuditLogsHandler_lists_in_order:
  assumes "find (\<lambda>t. table_name t = ''audit_logs'') store = Some t"
    and "set audit_logs_columns \<subseteq> set (table_columns t)"
    and "\<forall>row \<in> set (table_rows t). stored_AuditLog (table_columns t) row \<noteq> None"
  shows "\<exists>recs.
      mset (map Some recs) = mset (map (stored_AuditLog (table_columns t)) (table_rows t))
    \<and> sorted_wrt (\<lambda>a b. Timestamp b \<le> Timestamp a) recs
    \<and> GetAuditLogsHandler (sql_Query message store) =
        \<lparr>status = StatusOK,
         body =
           (if recs = [] then JNull
            else JArray (map (\<lambda>log.
                   JObject [(''id'', JNumber (ID log)),
                            (''action'', JString (json_string (Action log))),
                            (''resource_name'', JString (json_string (ResourceName log))),
                            (''namespace'', JString (json_string (AuditLog.Namespace log))),
                            (''timestamp'', JString (json_string (Timestamp log))),
                            (''hash'', JString (json_string (Hash log)))]) recs))\<rparr>"
proof -
  let ?cols = "table_columns t"
  let ?key = "\<lambda>row. sql_key (column ?cols row ''timestamp'')"
  let ?sorted = "rev (sort_key ?key (table_rows t))"
  let ?stored = "stored_AuditLog ?cols"
  let ?recs = "map (\<lambda>row. the (?stored row)) ?sorted"
  have in_rows: "set ?sorted = set (table_rows t)" by simp
  have some: "?stored row = Some (the (?stored row))" if "row \<in> set ?sorted" for row
    using that assms(3) in_rows by auto
  have scan: "Scan_AuditLog (map (cell row)
        (map (\<lambda>c. the (index_of c ?cols)) audit_logs_columns)) = Inr (the (?stored row))"
    if "row \<in> set ?sorted" for row
    by (rule Scan_stored [OF some [OF that] assms(2)])
  let ?project = "\<lambda>row. map (cell row) (map (\<lambda>c. the (index_of c ?cols)) audit_logs_columns)"
  let ?scanned = "\<lambda>row. case Scan_AuditLog row of
      Inl f \<Rightarrow> ScanError (message f) | Inr log \<Rightarrow> Scanned log"
  have "?scanned (?project row) = Scanned (the (?stored row))" if "row \<in> set ?sorted" for row
    by (simp only: scan [OF that] sum.case)
  then have "map (\<lambda>row. ?scanned (?project row)) ?sorted =
      map (\<lambda>row. Scanned (the (?stored row))) ?sorted"
    by (intro map_cong refl)
  then have cursor: "map ?scanned (map ?project ?sorted) = map Scanned ?recs"
    by (simp only: map_map o_def)
  have "sql_Query message store audit_logs_query = Inr (map ?scanned (map ?project ?sorted))"
    by (simp only: sql_Query_def execute_audit_logs_query [OF assms(1,2)] sum.case)
  then have answer: "sql_Query message store audit_logs_query = Inr (map Scanned ?recs)"
    by (simp only: cursor)
  have resp: "GetAuditLogsHandler (sql_Query message store) =
      \<lparr>status = StatusOK,
       body = (if ?recs = [] then JNull else JArray (map AuditLog_json ?recs))\<rparr>"
    by (simp add: GetAuditLogsHandler_def answer scan_rows_Scanned del: map_map)
  have json: "AuditLog_json = (\<lambda>log.
                   JObject [(''id'', JNumber (ID log)),
                            (''action'', JString (json_string (Action log))),
                            (''resource_name'', JString (json_string (ResourceName log))),
                            (''namespace'', JString (json_string (AuditLog.Namespace log))),
                            (''timestamp'', JString (json_string (Timestamp log))),
                            (''hash'', JString (json_string (Hash log)))])"
    by (rule ext) (simp add: AuditLog_json_def)
  have "map Some ?recs = map ?stored ?sorted"
    using some by (simp add: map_idI)
  then have m: "mset (map Some ?recs) = mset (map ?stored (table_rows t))"
    by (simp del: map_map)
  have key: "?key row = (2, 0, Timestamp (the (?stored row)))" if "row \<in> set ?sorted" for row
    using stored_AuditLog_columns [OF some [OF that]] by simp
  have "sorted (map ?key (sort_key ?key (table_rows t)))"
    by (rule sorted_sort_key)
  then have "sorted_wrt (\<lambda>a b. ?key a \<le> ?key b) (sort_key ?key (table_rows t))"
    by (simp add: sorted_wrt_map)
  then have "sorted_wrt (\<lambda>a b. ?key b \<le> ?key a) ?sorted"
    by (simp add: sorted_wrt_rev)
  then have "sorted_wrt (\<lambda>a b. Timestamp (the (?stored b)) \<le> Timestamp (the (?stored a))) ?sorted"
  proof (rule sorted_wrt_mono_rel [rotated])
    fix a b
    assume "a \<in> set ?sorted" "b \<in> set ?sorted" "?key b \<le> ?key a"
    then show "Timestamp (the (?stored b)) \<le> Timestamp (the (?stored a))"
      using key [of a] key [of b] by simp
  qed
  then have s: "sorted_wrt (\<lambda>a b. Timestamp b \<le> Timestamp a) ?recs"
    by (simp add: sorted_wrt_map)
  from m s resp show ?thesis
    unfolding json by (intro exI [of _ ?recs] conjI)
qed

theorem GetAuditLogsHandler_lists_in_order_witness:
  "find (\<lambda>t. table_name t = ''audit_logs'') example_store = Some audit_logs_table
   \<and> table_rows audit_logs_table = [row_morning, row_evening]
   \<and> stored_AuditLog (table_columns audit_logs_table) row_morning = Some log_morning
   \<and> stored_AuditLog (table_columns audit_logs_table) row_evening = Some log_evening
   \<and> GetAuditLogsHandler (sql_Query plain_message example_store) =
       \<lparr>status = 200, body = JArray [AuditLog_json log_evening, AuditLog_json log_morning]\<rparr>"
proof -
  have rows: "table_rows audit_logs_table = [row_morning, row_evening]"
    by (simp add: audit_logs_table_def)
  have typed: "\<forall>row \<in> set (table_rows audit_logs_table).
      stored_AuditLog (table_columns audit_logs_table) row \<noteq> None"
    by (simp add: rows example_stored)
  obtain recs where
    m: "mset (map Some recs) =
        mset (map (stored_AuditLog (table_columns audit_logs_table)) (table_rows audit_logs_table))"
    and s: "sorted_wrt (\<lambda>a b. Timestamp b \<le> Timestamp a) recs"
    and r: "GetAuditLogsHandler (sql_Query plain_message example_store) =
        \<lparr>status = StatusOK,
         body =
           (if recs = [] then JNull
            else JArray (map (\<lambda>log.
                   JObject [(''id'', JNumber (ID log)),
                            (''action'', JString (json_string (Action log))),
                            (''resource_name'', JString (json_string (ResourceName log))),
                            (''namespace'', JString (json_string (AuditLog.Namespace log))),
                            (''timestamp'', JString (json_string (Timestamp log))),
                            (''hash'', JString (json_string (Hash log)))]) recs))\<rparr>"
    using GetAuditLogsHandler_lists_in_order [OF example_table example_columns typed,
        of plain_message]
    by blast
  from m have m': "mset (map Some recs) = mset [Some log_morning, Some log_evening]"
    by (simp add: rows example_stored)
  from mset_eq_length [OF m'] have "length recs = 2" by simp
  then obtain a b where ab: "recs = [a, b]"
    by (cases recs; cases "tl recs") auto
  have ts: "Timestamp log_morning = ''2024-05-01T09:00:00Z''"
    "Timestamp log_evening = ''2024-05-02T17:30:00Z''"
    by (simp_all add: log_morning_def log_evening_def)
  from mset_eq_setD [OF m'] ab have "{a, b} = {log_morning, log_evening}"
    by auto
  then have "(a = log_morning \<and> b = log_evening) \<or> (a = log_evening \<and> b = log_morning)"
    by (simp add: doubleton_eq_iff)
  with s ab ts have recs: "recs = [log_evening, log_morning]"
    by auto
  have "GetAuditLogsHandler (sql_Query plain_message example_store) =
       \<lparr>status = 200, body = JArray [AuditLog_json log_evening, AuditLog_json log_morning]\<rparr>"
    unfolding r recs by (simp add: StatusOK_def AuditLog_json_def del: json_string.simps)
  with example_table rows example_stored show ?thesis by simp
qed


text \<open>
  Claim C10. When the query succeeds and yields no row, \<open>logs\<close> is still the nil slice
  it was declared as, and the handler answers 200 with the JSON value \<open>null\<close>, not with
  an empty array and not with an error.
\<close>

theorem GetAuditLogsHandler_no_records:
  assumes "db audit_logs_query = Inr []"
  shows "GetAuditLogsHandler db = \<lparr>status = StatusOK, body = JNull\<rparr>"
  using assms by (simp add: GetAuditLogsHandler_def)

theorem GetAuditLogsHandler_no_records_witness:
  "db_no_logs audit_logs_query = Inr []
   \<and> GetAuditLogsHandler db_no_logs = \<lparr>status = 200, body = JNull\<rparr>
   \<and> body (GetAuditLogsHandler db_no_logs) \<noteq> JArray []"
proof -
  have h: "db_no_logs audit_logs_query = Inr []"
    by (simp add: db_no_logs_def)
  from GetAuditLogsHandler_no_records [of db_no_logs, OF h] h show ?thesis
    by (simp add: StatusOK_def)
qed

section \<open>The audit chain: the claims\<close>

text \<open>
  Claim C3. After any sequence of appends to the empty chain (fewer than \<open>2^64\<close> of
  them, the range of the sequence number), every append has succeeded, the rows
  persisted are the records returned, and for the records in order: the sequence
  numbers are 1, 2, 3 and so on without a gap; the previous hash of the first record is
  the all-zero genesis digest and the previous hash of every later record is the hash of
  the record before it; and the hash of every record is the digest of its canonical
  fields followed by its previous hash, a function of these alone.
\<close>

theorem Appends_chain_invariants:
  assumes "length es < 2 ^ 64"
  shows "\<exists>rs. Appends R es [] = Inr (rs, map stored_of rs) \<and> length rs = length es
     \<and> (\<forall>i < length rs. unat (sequence (rs ! i)) = i + 1)
     \<and> (\<forall>i j. i < j \<and> j < length rs \<longrightarrow> sequence (rs ! i) < sequence (rs ! j))
     \<and> (\<forall>i < length rs. previousHash (rs ! i) =
           (if i = 0 then replicate (digest_size R) (CHR 0x00) else hash (rs ! (i - 1))))
     \<and> (\<forall>i < length rs. hash (rs ! i) =
           record_hash R (fields_of (rs ! i)) (previousHash (rs ! i)))"
proof -
  obtain rs where rs: "Appends R es [] = Inr (rs, map stored_of rs)" "length rs = length es"
    "linked R 0 (genesis R) rs"
    using Appends_linked [of R es "[]"] by (auto simp: chain_tail_Nil)
  have seq: "unat (sequence (rs ! i)) = i + 1" if "i < length rs" for i
  proof -
    from that rs(2) assms have "Suc i < 2 ^ 64" by simp
    then have "unat (of_nat (Suc i) :: 64 word) = Suc i" by (rule unat_of_nat_64)
    with linked_nth [OF rs(3) that] show ?thesis by simp
  qed
  have prev: "previousHash (rs ! i) =
      (if i = 0 then replicate (digest_size R) (CHR 0x00) else hash (rs ! (i - 1)))"
    if "i < length rs" for i
    using linked_nth [OF rs(3) that] by (simp add: genesis_def)
  have h: "hash (rs ! i) = record_hash R (fields_of (rs ! i)) (previousHash (rs ! i))"
    if "i < length rs" for i
    using linked_nth [OF rs(3) that] by simp
  have inc: "sequence (rs ! i) < sequence (rs ! j)" if "i < j \<and> j < length rs" for i j
    using that seq [of i] seq [of j] by (simp add: word_less_nat_alt)
  from rs(1,2) seq inc prev h show ?thesis by blast
qed

theorem Appends_chain_invariants_witness:
  "Appends example_rule example_events [] =
     Inr (example_records, [example_row1, example_row2, example_row3])
   \<and> unat (sequence (example_records ! 0)) = 1
   \<and> unat (sequence (example_records ! 2)) = 3
   \<and> previousHash (example_records ! 0) = [CHR 0x00]
   \<and> previousHash (example_records ! 2) = hash (example_records ! 1)
   \<and> hash (example_records ! 1) =
       record_hash example_rule (fields_of (example_records ! 1))
         (previousHash (example_records ! 1))"
proof -
  obtain rs where rs: "Appends example_rule example_events [] = Inr (rs, map stored_of rs)"
    "length rs = length example_events"
    "\<forall>i < length rs. unat (sequence (rs ! i)) = i + 1"
    "\<forall>i j. i < j \<and> j < length rs \<longrightarrow> sequence (rs ! i) < sequence (rs ! j)"
    "\<forall>i < length rs. previousHash (rs ! i) =
       (if i = 0 then replicate (digest_size example_rule) (CHR 0x00) else hash (rs ! (i - 1)))"
    "\<forall>i < length rs. hash (rs ! i) =
       record_hash example_rule (fields_of (rs ! i)) (previousHash (rs ! i))"
    using Appends_chain_invariants [OF example_events_length, of example_rule] by blast
  from rs(1) have eq: "rs = example_records"
    by (simp add: example_Appends)
  have len: "length example_records = 3"
    by (simp add: example_records_def)
  have size: "digest_size example_rule = 1"
    by (simp add: example_rule_def)
  from rs(3) [unfolded eq len, rule_format, of 0] rs(3) [unfolded eq len, rule_format, of 2]
    rs(5) [unfolded eq len, rule_format, of 0] rs(5) [unfolded eq len, rule_format, of 2]
    rs(6) [unfolded eq len, rule_format, of 1]
  show ?thesis
    by (simp add: example_Appends size)
qed






section \<open>The resolver: the claim\<close>

text \<open>
  Claim C1. For every subject and every snapshot, the result of
  \<open>ResolveEffectivePermissions\<close> has no duplicate and holds exactly the pairs
  \<open>(scope, rule)\<close> derived from the bindings whose subject list contains the subject. A
  RoleBinding with a cluster \<open>roleRef\<close> contributes the rules of the referenced
  ClusterRole scoped to the binding's own namespace. The set of pairs is the same for any
  snapshot that holds the same objects in another order.
\<close>

theorem ResolveEffectivePermissions_exact:
  "set (ResolveEffectivePermissions s snap) = granted s snap
   \<and> distinct (ResolveEffectivePermissions s snap)
   \<and> (\<forall>b \<in> set (roleBindings snap).
         s \<in> set (spec_RoleBinding.subjects b) \<and> scope (spec_RoleBinding.roleRef b) = Cluster \<longrightarrow>
         (\<forall>r \<in> set (clusterRoles snap).
            spec_ClusterRole.name r = spec_RoleRef.name (spec_RoleBinding.roleRef b) \<longrightarrow>
            (\<forall>rule \<in> set (spec_ClusterRole.rules r).
               (spec_RoleBinding.namespace b, rule) \<in> set (ResolveEffectivePermissions s snap))))
   \<and> (\<forall>snap'. same_objects snap snap' \<longrightarrow>
         set (ResolveEffectivePermissions s snap') = set (ResolveEffectivePermissions s snap))"
proof (intro conjI ballI allI impI)
  show "set (ResolveEffectivePermissions s snap) = granted s snap"
    by (rule set_ResolveEffectivePermissions)
  show "distinct (ResolveEffectivePermissions s snap)"
    by (rule distinct_ResolveEffectivePermissions)
next
  fix b r rule
  assume b: "b \<in> set (roleBindings snap)"
    and s: "s \<in> set (spec_RoleBinding.subjects b) \<and> scope (spec_RoleBinding.roleRef b) = Cluster"
    and r: "r \<in> set (clusterRoles snap)"
      "spec_ClusterRole.name r = spec_RoleRef.name (spec_RoleBinding.roleRef b)"
      "rule \<in> set (spec_ClusterRole.rules r)"
  from s r have "(spec_RoleBinding.namespace b, rule) \<in> RoleBinding_grants snap b"
    by (auto simp: RoleBinding_grants_def)
  with b s have "(spec_RoleBinding.namespace b, rule) \<in> granted s snap"
    by (auto simp: granted_def)
  then show "(spec_RoleBinding.namespace b, rule) \<in> set (ResolveEffectivePermissions s snap)"
    by (simp only: set_ResolveEffectivePermissions)
next
  fix snap'
  assume "same_objects snap snap'"
  then show "set (ResolveEffectivePermissions s snap') = set (ResolveEffectivePermissions s snap)"
    by (simp only: set_ResolveEffectivePermissions granted_same_objects)
qed

theorem ResolveEffectivePermissions_exact_witness:
  "ResolveEffectivePermissions group_dev scenario2 = [(''default'', viewer_rule)]
   \<and> granted group_dev scenario2 = {(''default'', viewer_rule)}
   \<and> (''default'', viewer_rule) \<in> set (ResolveEffectivePermissions group_dev scenario2)
   \<and> (cluster_wide, viewer_rule) \<notin> set (ResolveEffectivePermissions group_dev scenario2)"
proof -
  note t = ResolveEffectivePermissions_exact [of group_dev scenario2]
  have g: "granted group_dev scenario2 = {(''default'', viewer_rule)}"
    using conjunct1 [OF t] by (simp add: scenario2_resolved)
  have b: "dev_binding \<in> set (roleBindings scenario2)"
    "group_dev \<in> set (spec_RoleBinding.subjects dev_binding)
      \<and> scope (spec_RoleBinding.roleRef dev_binding) = Cluster"
    "viewer_role \<in> set (clusterRoles scenario2)"
    "spec_ClusterRole.name viewer_role = spec_RoleRef.name (spec_RoleBinding.roleRef dev_binding)"
    "viewer_rule \<in> set (spec_ClusterRole.rules viewer_role)"
    "spec_RoleBinding.namespace dev_binding = ''default''"
    by (simp_all add: scenario2_def dev_binding_def viewer_role_def)
  have m: "(''default'', viewer_rule) \<in> set (ResolveEffectivePermissions group_dev scenario2)"
    using conjunct1 [OF conjunct2 [OF conjunct2 [OF t]], rule_format, OF b(1) b(2) b(3) b(4) b(5)]
    by (simp add: b(6))
  show ?thesis
    using g m by (simp add: scenario2_resolved cluster_wide_def)
qed

end
